theory Spec2Isabelle
  imports Main "HOL-Library.Sublist" "HOL-Library.AList"
begin

text \<open>
  The client of the realtime API, \<open>MegaETHClient\<close>, and the \<open>WebSocketManager\<close> it owns:
  requests over HTTP, the connection of the socket with its reconnects, and the table of
  subscriptions. Line numbers are those of \<^verbatim>\<open>src/operations/simulations.ts\<close>.
\<close>

section \<open>JavaScript values\<close>

text \<open>
  Values that travel through JSON (\<open>any\<close> in the TypeScript source). Numbers are the
  integers; a field that is absent (\<open>undefined\<close>) is \<open>None\<close> of an option type.
\<close>

datatype json =
    JNull
  | JBool bool
  | JNum int
  | JStr string
  | JArr "json list"
  | JObj "(string \<times> json) list"

text \<open>Truthiness, as \<open>||\<close> and \<open>if (...)\<close> see it.\<close>

fun truthy :: "json \<Rightarrow> bool" where
  "truthy JNull = False"
| "truthy (JBool b) = b"
| "truthy (JNum n) = (n \<noteq> 0)"
| "truthy (JStr s) = (s \<noteq> [])"
| "truthy (JArr xs) = True"
| "truthy (JObj kvs) = True"

text \<open>\<open>x || d\<close> for a possibly absent \<open>x\<close>.\<close>

definition or_default :: "json option \<Rightarrow> json \<Rightarrow> json" where
  "or_default x d = (case x of None \<Rightarrow> d | Some v \<Rightarrow> if truthy v then v else d)"

text \<open>\<open>a === b\<close>: primitives compare by value, two parsed arrays or objects are never
  the same reference, and \<open>undefined === undefined\<close>.\<close>

fun strict_eq :: "json option \<Rightarrow> json option \<Rightarrow> bool" where
  "strict_eq None None = True"
| "strict_eq (Some JNull) (Some JNull) = True"
| "strict_eq (Some (JBool a)) (Some (JBool b)) = (a = b)"
| "strict_eq (Some (JNum a)) (Some (JNum b)) = (a = b)"
| "strict_eq (Some (JStr a)) (Some (JStr b)) = (a = b)"
| "strict_eq a b = False"

text \<open>\<open>params[0]\<close>: \<open>undefined\<close> on an empty array.\<close>

definition first_param :: "json list \<Rightarrow> json option" where
  "first_param ps = (case ps of [] \<Rightarrow> None | p # rest \<Rightarrow> Some p)"

text \<open>\<open>s.includes(t)\<close>: \<open>t\<close> occurs in \<open>s\<close> as a contiguous run of characters.\<close>

fun includes_str :: "string \<Rightarrow> string \<Rightarrow> bool" where
  "includes_str [] t = (t = [])"
| "includes_str (x # xs) t = (prefix t (x # xs) \<or> includes_str xs t)"

section \<open>The request envelope\<close>

record payload =
  p_id :: nat
  p_method :: string
  p_params :: "json list"

text \<open>
  \<open>this.requestId++\<close> on a JavaScript number: exact below \<open>2 ^ 53\<close>; at \<open>2 ^ 53\<close> the
  sum \<open>2 ^ 53 + 1\<close> rounds back to \<open>2 ^ 53\<close>, so the counter stays there.
\<close>

definition increment :: "nat \<Rightarrow> nat" where
  "increment n = (if n < 2 ^ 53 then n + 1 else n)"

section \<open>WebSocketManager\<close>

datatype ready_state = CONNECTING | OPEN | CLOSING | CLOSED

text \<open>
  The closure \<open>messageHandler\<close> that \<open>subscribe\<close> registers for its request: the request
  id, the local handle, the event type and the parameters it captured, and whether the
  promise of that call is already settled.
\<close>

record pending =
  h_id :: nat
  h_subscriptionId :: string
  h_eventType :: string
  h_params :: json
  h_settled :: bool

text \<open>The listeners of the \<open>message\<close> event: the client's own, registered by the
  constructor, and one per subscribe request that still waits.\<close>

datatype listener = ClientListener | MessageHandler pending

text \<open>
  The fields of the class, then what it did to the outside: the sockets it created, the
  frames it sent, the reconnect timers it set (their delays) and the events it emitted.
  \<open>connection\<close> is \<open>None\<close> for \<open>null\<close>, else the ready state of the socket that
  \<open>this.connection\<close> names. \<open>earlier\<close> holds the ready states of the sockets of earlier
  attempts: \<open>connect()\<close> replaces \<open>this.connection\<close> without closing the socket it named,
  and the handlers attached to that socket stay attached.
\<close>

record ws_manager =
  connection :: "ready_state option"
  earlier :: "ready_state list"
  reconnectAttempts :: nat
  maxReconnectAttempts :: nat
  reconnectDelay :: nat
  heartbeatInterval :: bool
  isConnecting :: bool
  messageListeners :: "listener list"
  socketsOpened :: nat
  sent :: "payload list"
  timers :: "nat list"
  emitted :: "string list"

definition new_ws_manager :: ws_manager where
  "new_ws_manager = \<lparr> connection = None, earlier = [], reconnectAttempts = 0,
     maxReconnectAttempts = 5,
     reconnectDelay = 1000, heartbeatInterval = False, isConnecting = False,
     messageListeners = [], socketsOpened = 0, sent = [], timers = [], emitted = [] \<rparr>"

definition is_open :: "ws_manager \<Rightarrow> bool" where
  "is_open ws = (connection ws = Some OPEN)"

subsection \<open>connect\<close>

text \<open>
  The synchronous part of \<open>connect()\<close>, lines 108-130: return at once when the socket that
  \<open>this.connection\<close> names is open, join the attempt in flight when the flag \<open>isConnecting\<close>
  is up, else raise the flag, create a socket and wait for its events. The socket that
  \<open>this.connection\<close> named before, if any, is not closed: it becomes the last of the
  earlier ones.
\<close>

datatype connect_status = AlreadyOpen | Waiting | Started

definition connect :: "ws_manager \<Rightarrow> connect_status \<times> ws_manager" where
  "connect ws =
     (if is_open ws then (AlreadyOpen, ws)
      else if isConnecting ws then (Waiting, ws)
      else (Started, ws\<lparr> isConnecting := True,
                          earlier := (case connection ws of
                                        None \<Rightarrow> earlier ws
                                      | Some st \<Rightarrow> earlier ws @ [st]),
                          connection := Some CONNECTING,
                          socketsOpened := socketsOpened ws + 1 \<rparr>))"

text \<open>\<open>checkConnection\<close>, the poll of a caller that joined an attempt in flight.\<close>

datatype poll = Resolved | Rejected | PollAgain

definition checkConnection :: "ws_manager \<Rightarrow> poll" where
  "checkConnection ws =
     (if is_open ws then Resolved
      else if \<not> isConnecting ws then Rejected
      else PollAgain)"

subsection \<open>handleReconnection\<close>

definition handleReconnection :: "ws_manager \<Rightarrow> ws_manager" where
  "handleReconnection ws =
     (if reconnectAttempts ws \<ge> maxReconnectAttempts ws
      then ws\<lparr> emitted := emitted ws @ [''maxReconnectAttemptsReached''] \<rparr>
      else let attempts = reconnectAttempts ws + 1
           in ws\<lparr> reconnectAttempts := attempts,
                  timers := timers ws @ [reconnectDelay ws * 2 ^ (attempts - 1)] \<rparr>)"

subsection \<open>The handlers of a socket\<close>

text \<open>
  The handlers that \<open>connect()\<close> attaches to the socket it creates. They change the
  fields of the manager and never \<open>this.connection\<close>; they run for whichever socket
  reports, also for the socket of an earlier attempt.
\<close>

text \<open>\<open>open\<close>, lines 137-143.\<close>

definition on_open :: "ws_manager \<Rightarrow> ws_manager" where
  "on_open ws = ws\<lparr> isConnecting := False, reconnectAttempts := 0, heartbeatInterval := True \<rparr>"

text \<open>\<open>error\<close>, lines 145-149.\<close>

definition on_error :: "ws_manager \<Rightarrow> ws_manager" where
  "on_error ws = ws\<lparr> isConnecting := False \<rparr>"

text \<open>\<open>close\<close>, lines 151-154.\<close>

definition on_close :: "ws_manager \<Rightarrow> ws_manager" where
  "on_close ws = handleReconnection (ws\<lparr> isConnecting := False \<rparr>)"

text \<open>The connection timer of an attempt fires: the promise rejects and the \<open>catch\<close> of
  lines 165-168 resets the flag. The socket is left as it is, with its handlers.\<close>

definition on_connect_timeout :: "ws_manager \<Rightarrow> ws_manager" where
  "on_connect_timeout ws = ws\<lparr> isConnecting := False \<rparr>"

subsection \<open>The events of the sockets\<close>

text \<open>A socket of the manager: the one \<open>this.connection\<close> names, or the \<open>k\<close>-th of the
  earlier ones.\<close>

datatype socket_ref = Current | Earlier nat

definition ready_of :: "socket_ref \<Rightarrow> ws_manager \<Rightarrow> ready_state option" where
  "ready_of r ws =
     (case r of
        Current \<Rightarrow> connection ws
      | Earlier k \<Rightarrow> if k < length (earlier ws) then Some (earlier ws ! k) else None)"

definition set_ready :: "socket_ref \<Rightarrow> ready_state \<Rightarrow> ws_manager \<Rightarrow> ws_manager" where
  "set_ready r st ws =
     (case r of
        Current \<Rightarrow> ws\<lparr> connection := Some st \<rparr>
      | Earlier k \<Rightarrow> ws\<lparr> earlier := (earlier ws)[k := st] \<rparr>)"

text \<open>A connecting socket opens: its ready state changes and its \<open>open\<close> handler runs.
  Nothing happens for a socket that does not exist or is not connecting.\<close>

definition socket_opens :: "socket_ref \<Rightarrow> ws_manager \<Rightarrow> ws_manager" where
  "socket_opens r ws =
     (if ready_of r ws = Some CONNECTING then on_open (set_ready r OPEN ws) else ws)"

text \<open>
  A socket fails, during the handshake or later: it is closing when it reports \<open>error\<close>
  and closed when it reports \<open>close\<close>, and it reports both before any other code runs.
\<close>

definition socket_fails :: "socket_ref \<Rightarrow> ws_manager \<Rightarrow> ws_manager" where
  "socket_fails r ws =
     (case ready_of r ws of
        None \<Rightarrow> ws
      | Some st \<Rightarrow>
          if st = CLOSED then ws
          else on_close (set_ready r CLOSED (on_error (set_ready r CLOSING ws))))"

text \<open>A socket closes without an error.\<close>

definition socket_closes :: "socket_ref \<Rightarrow> ws_manager \<Rightarrow> ws_manager" where
  "socket_closes r ws =
     (case ready_of r ws of
        None \<Rightarrow> ws
      | Some st \<Rightarrow> if st = CLOSED then ws else on_close (set_ready r CLOSED ws))"

subsection \<open>send\<close>

text \<open>\<open>None\<close> is the throw of line 220.\<close>

definition send :: "ws_manager \<Rightarrow> payload \<Rightarrow> ws_manager option" where
  "send ws p = (if is_open ws then Some (ws\<lparr> sent := sent ws @ [p] \<rparr>) else None)"

text \<open>Several \<open>connect()\<close> calls one after the other, nothing else in between.\<close>

fun connects :: "nat \<Rightarrow> ws_manager \<Rightarrow> connect_status list \<times> ws_manager" where
  "connects 0 ws = ([], ws)"
| "connects (Suc n) ws =
     (case connect ws of (st, ws') \<Rightarrow>
        (case connects n ws' of (sts, ws'') \<Rightarrow> (st # sts, ws'')))"

text \<open>Closes in a row, none of the reconnects in between reaching \<open>open\<close>.\<close>

fun closes :: "nat \<Rightarrow> ws_manager \<Rightarrow> ws_manager" where
  "closes 0 ws = ws"
| "closes (Suc n) ws = closes n (on_close ws)"

section \<open>Errors\<close>

text \<open>A plain \<open>Error\<close> object, with the two fields \<open>callRPC\<close> may attach to it.\<close>

record js_error =
  message :: string
  rpcMethod :: "string option"
  rpcParams :: "json list option"

definition plain :: "string \<Rightarrow> js_error" where
  "plain msg = \<lparr> message = msg, rpcMethod = None, rpcParams = None \<rparr>"

text \<open>
  \<open>MegaETHError(message, code, data)\<close> and its subclasses, each with the argument of its
  constructor. An instance has the fields \<open>message\<close>, \<open>code\<close> and \<open>data\<close> and no other.
\<close>

datatype megaeth_error =
    MegaETHError string "json option" "json option"
  | RealtimeTransactionExpiredError json
  | MiniBlockNotFoundError json
  | SubscriptionLimitError int

fun error_code :: "megaeth_error \<Rightarrow> json option" where
  "error_code (MegaETHError msg code d) = code"
| "error_code (RealtimeTransactionExpiredError txHash) = Some (JStr ''REALTIME_TX_EXPIRED'')"
| "error_code (MiniBlockNotFoundError blockNumber) = Some (JStr ''MINI_BLOCK_NOT_FOUND'')"
| "error_code (SubscriptionLimitError limit) = Some (JStr ''SUBSCRIPTION_LIMIT_EXCEEDED'')"

fun error_data :: "megaeth_error \<Rightarrow> json option" where
  "error_data (MegaETHError msg code d) = d"
| "error_data e = None"

text \<open>What a call throws or rejects with.\<close>

datatype exn = MegaETH megaeth_error | Error js_error

text \<open>The method and parameters an error carries, if any.\<close>

fun exn_rpcMethod :: "exn \<Rightarrow> string option" where
  "exn_rpcMethod (MegaETH e) = None"
| "exn_rpcMethod (Error e) = rpcMethod e"

fun exn_rpcParams :: "exn \<Rightarrow> json list option" where
  "exn_rpcParams (MegaETH e) = None"
| "exn_rpcParams (Error e) = rpcParams e"

section \<open>MegaETHClient\<close>

text \<open>The callback of a subscription: the empty function \<open>() => {}\<close> that \<open>subscribe\<close>
  installs, or a function of the caller, known by a number.\<close>

datatype callback = NoOp | Callback nat

record subscription =
  s_id :: "json option"
  s_eventType :: string
  s_params :: json
  s_callback :: callback

text \<open>
  The fields of the class, then what it did to the outside: every value
  \<open>this.requestId++\<close> returned, the bodies posted over HTTP, how the promises of the
  subscribe requests settled (by request id) and the calls made to callbacks of callers.
  The \<open>Map\<close> of subscriptions is a list of entries in insertion order.
\<close>

record client =
  wsManager :: "ws_manager option"
  subscriptions :: "(string \<times> subscription) list"
  requestId :: nat
  megaethMaxSubscriptions :: "int option"
  issued :: "nat list"
  httpPosts :: "payload list"
  settled :: "(nat \<times> (exn + string)) list"
  delivered :: "(nat \<times> json option) list"

text \<open>The constructor: with or without \<open>megaethWsUrl\<close>, with the configured limit.\<close>

definition new_client :: "bool \<Rightarrow> int option \<Rightarrow> client" where
  "new_client wsUrl maxSubs =
     \<lparr> wsManager = (if wsUrl
                     then Some (new_ws_manager\<lparr> messageListeners := [ClientListener] \<rparr>)
                     else None),
       subscriptions = [], requestId = 1, megaethMaxSubscriptions = maxSubs,
       issued = [], httpPosts = [], settled = [], delivered = [] \<rparr>"

text \<open>\<open>this.requestId++\<close>.\<close>

definition alloc :: "client \<Rightarrow> nat \<times> client" where
  "alloc c = (requestId c, c\<lparr> requestId := increment (requestId c),
                               issued := issued c @ [requestId c] \<rparr>)"

subsection \<open>callRPC\<close>

text \<open>The \<open>error\<close> member of a response body, and the body. An \<open>error\<close> that is absent or
  falsy is \<open>None\<close>.\<close>

record rpc_error_object =
  e_message :: "string option"
  e_code :: "json option"
  e_data :: "json option"

record response_data =
  r_error :: "rpc_error_object option"
  r_result :: "json option"

text \<open>What \<open>httpClient.post\<close> does: it returns a response, or it throws.\<close>

datatype http_outcome = Response response_data | Failure js_error

text \<open>The \<open>try\<close> block, lines 319-337.\<close>

definition callRPC_try :: "json list \<Rightarrow> http_outcome \<Rightarrow> exn + json option" where
  "callRPC_try params out =
     (case out of
        Failure e \<Rightarrow> Inl (Error e)
      | Response d \<Rightarrow>
          (case r_error d of
             None \<Rightarrow> Inr (r_result d)
           | Some e \<Rightarrow>
               let errorMessage = (case e_message e of
                                     None \<Rightarrow> ''Unknown RPC error''
                                   | Some m \<Rightarrow> if m = [] then ''Unknown RPC error'' else m);
                   errorCode = or_default (e_code e) (JStr ''UNKNOWN'')
               in if includes_str errorMessage ''realtime transaction expired''
                  then Inl (MegaETH (RealtimeTransactionExpiredError
                                       (or_default (first_param params) (JStr ''unknown''))))
                  else if includes_str errorMessage ''mini block not found''
                  then Inl (MegaETH (MiniBlockNotFoundError
                                       (or_default (first_param params) (JNum 0))))
                  else Inl (MegaETH (MegaETHError errorMessage (Some errorCode) (e_data e)))))"

text \<open>The \<open>catch\<close> block, lines 338-350.\<close>

definition callRPC_catch :: "string \<Rightarrow> json list \<Rightarrow> exn \<Rightarrow> exn" where
  "callRPC_catch method params x =
     (case x of
        MegaETH e \<Rightarrow> MegaETH e
      | Error e \<Rightarrow> Error (e\<lparr> rpcMethod := Some method, rpcParams := Some params \<rparr>))"

definition callRPC :: "client \<Rightarrow> string \<Rightarrow> json list \<Rightarrow> http_outcome
    \<Rightarrow> (exn + json option) \<times> client" where
  "callRPC c method params out =
     (if method = [] then (Inl (Error (plain ''RPC method is required'')), c)
      else case alloc c of (rid, c') \<Rightarrow>
        let body = \<lparr> p_id = rid, p_method = method, p_params = params \<rparr>;
            c'' = c'\<lparr> httpPosts := httpPosts c' @ [body] \<rparr>
        in (case callRPC_try params out of
              Inl x \<Rightarrow> (Inl (callRPC_catch method params x), c'')
            | Inr r \<Rightarrow> (Inr r, c'')))"

subsection \<open>connectWebSocket\<close>

text \<open>How a connection attempt ends: its socket opens, its socket fails with an error,
  or its connection timer fires first.\<close>

datatype socket_outcome = Opens | Errors string | TimesOut

definition socket_event :: "socket_ref \<Rightarrow> socket_outcome \<Rightarrow> ws_manager \<Rightarrow> ws_manager" where
  "socket_event r out ws =
     (case out of Opens \<Rightarrow> socket_opens r ws | Errors msg \<Rightarrow> socket_fails r ws
      | TimesOut \<Rightarrow> on_connect_timeout ws)"

text \<open>
  \<open>await connect()\<close> in the run where nothing but the end of the attempt happens before
  the caller resumes: the call, the end of the attempt of the socket \<open>this.connection\<close>
  names, and the result for this caller. A caller that started the attempt is settled
  by the handler or the timer itself. A caller that joined an attempt in flight polls
  the manager every 100 ms; here its next poll is the next code to run. In the runs of
  a client the flag \<open>isConnecting\<close> is up only while that socket is connecting, so after
  the end of the attempt that poll does not ask to wait again. Runs in which other code
  comes in between are made of \<open>connect\<close>, the events of the sockets and
  \<open>checkConnection\<close>.
\<close>

definition connect_await :: "ws_manager \<Rightarrow> socket_outcome \<Rightarrow> (js_error + unit) \<times> ws_manager" where
  "connect_await ws out =
     (case connect ws of
        (AlreadyOpen, ws') \<Rightarrow> (Inr (), ws')
      | (Started, ws') \<Rightarrow>
          (case out of
             Opens \<Rightarrow> (Inr (), socket_event Current out ws')
           | Errors msg \<Rightarrow> (Inl (plain msg), socket_event Current out ws')
           | TimesOut \<Rightarrow>
               (Inl (plain ''WebSocket connection timeout''), socket_event Current out ws'))
      | (Waiting, ws') \<Rightarrow>
          (case checkConnection (socket_event Current out ws') of
             Resolved \<Rightarrow> (Inr (), socket_event Current out ws')
           | Rejected \<Rightarrow> (Inl (plain ''Connection failed''), socket_event Current out ws')
           | PollAgain \<Rightarrow> (Inl (plain ''Connection failed''), socket_event Current out ws')))"

definition connectWebSocket :: "client \<Rightarrow> socket_outcome \<Rightarrow> (exn + unit) \<times> client" where
  "connectWebSocket c out =
     (case wsManager c of
        None \<Rightarrow> (Inl (Error (plain ''WebSocket URL not configured'')), c)
      | Some ws \<Rightarrow>
          (case connect_await ws out of
             (Inl e, ws') \<Rightarrow> (Inl (Error e), c\<lparr> wsManager := Some ws' \<rparr>)
           | (Inr u, ws') \<Rightarrow> (Inr (), c\<lparr> wsManager := Some ws' \<rparr>)))"

subsection \<open>subscribe\<close>

text \<open>\<open>this.config.megaethMaxSubscriptions || 100\<close>.\<close>

definition maxSubscriptions :: "client \<Rightarrow> int" where
  "maxSubscriptions c =
     (case megaethMaxSubscriptions c of None \<Rightarrow> 100 | Some n \<Rightarrow> if n = 0 then 100 else n)"

text \<open>
  Lines 372-407, the part of \<open>subscribe\<close> after \<open>await this.connectWebSocket()\<close>. The
  local handle (built from the clock and a random number) is an input. \<open>Inr rid\<close>:
  request \<open>rid\<close> is sent, its handler registered and its timer armed. \<open>Inl\<close>: \<open>send\<close> threw
  inside the promise, which is rejected; the handler stays registered.
\<close>

definition subscribe_send :: "client \<Rightarrow> string \<Rightarrow> json \<Rightarrow> string \<Rightarrow> (exn + nat) \<times> client" where
  "subscribe_send c1 eventType params subscriptionId =
     (case alloc c1 of (rid, c2) \<Rightarrow>
        let body = \<lparr> p_id = rid, p_method = ''eth_subscribe'',
                     p_params = [JStr eventType, params] \<rparr>;
            h = \<lparr> h_id = rid, h_subscriptionId = subscriptionId,
                  h_eventType = eventType, h_params = params, h_settled = False \<rparr>
        in (case wsManager c2 of
              None \<Rightarrow> (Inl (Error (plain ''WebSocket not configured'')), c2)
            | Some ws \<Rightarrow>
                (case send (ws\<lparr> messageListeners :=
                                messageListeners ws @ [MessageHandler h] \<rparr>) body of
                   Some ws' \<Rightarrow> (Inr rid, c2\<lparr> wsManager := Some ws' \<rparr>)
                 | None \<Rightarrow>
                     (Inl (Error (plain ''WebSocket connection not open'')),
                      c2\<lparr> wsManager := Some (ws\<lparr> messageListeners :=
                             messageListeners ws
                               @ [MessageHandler (h\<lparr> h_settled := True \<rparr>)] \<rparr>) \<rparr>))))"

text \<open>
  Lines 361-407, up to the moment the call waits for its response, with nothing else
  running while it waits for the socket. \<open>Inl\<close>: the call has failed; \<open>Inr rid\<close>: it
  waits for the response to request \<open>rid\<close>.
\<close>

definition subscribe_request :: "client \<Rightarrow> string \<Rightarrow> json \<Rightarrow> socket_outcome \<Rightarrow> string
    \<Rightarrow> (exn + nat) \<times> client" where
  "subscribe_request c eventType params out subscriptionId =
     (case wsManager c of
        None \<Rightarrow> (Inl (Error (plain ''WebSocket not configured'')), c)
      | Some ws0 \<Rightarrow>
          if int (length (subscriptions c)) \<ge> maxSubscriptions c
          then (Inl (MegaETH (SubscriptionLimitError (maxSubscriptions c))), c)
          else
            (case connectWebSocket c out of
               (Inl x, c1) \<Rightarrow> (Inl x, c1)
             | (Inr u, c1) \<Rightarrow> subscribe_send c1 eventType params subscriptionId))"

text \<open>Lines 361-370 alone: the two tests and the call of \<open>connect()\<close>, before any event
  of the socket.\<close>

definition subscribe_begin :: "client \<Rightarrow> (exn + connect_status) \<times> client" where
  "subscribe_begin c =
     (case wsManager c of
        None \<Rightarrow> (Inl (Error (plain ''WebSocket not configured'')), c)
      | Some ws \<Rightarrow>
          if int (length (subscriptions c)) \<ge> maxSubscriptions c
          then (Inl (MegaETH (SubscriptionLimitError (maxSubscriptions c))), c)
          else (case connect ws of (st, ws') \<Rightarrow> (Inr st, c\<lparr> wsManager := Some ws' \<rparr>)))"

subsection \<open>Messages from the socket\<close>

text \<open>A parsed message: \<open>id\<close>, \<open>method\<close>, \<open>params\<close> (with its members \<open>subscription\<close> and
  \<open>result\<close>), \<open>result\<close> and \<open>error\<close>, each possibly absent.\<close>

record notification_params =
  n_subscription :: "json option"
  n_result :: "json option"

record ws_message =
  m_id :: "json option"
  m_method :: "string option"
  m_params :: "notification_params option"
  m_result :: "json option"
  m_error :: "rpc_error_object option"

text \<open>Calling a callback: the empty function does nothing, a call to a function of the
  caller is recorded.\<close>

definition invoke :: "callback \<Rightarrow> json option \<Rightarrow> client \<Rightarrow> client" where
  "invoke cb d c =
     (case cb of NoOp \<Rightarrow> c | Callback k \<Rightarrow> c\<lparr> delivered := delivered c @ [(k, d)] \<rparr>)"

text \<open>The loop of lines 483-488: the first entry whose server id is the one named.\<close>

fun find_subscription :: "json option \<Rightarrow> (string \<times> subscription) list \<Rightarrow> subscription option" where
  "find_subscription serverSubId [] = None"
| "find_subscription serverSubId ((localId, s) # rest) =
     (if strict_eq (s_id s) serverSubId then Some s else find_subscription serverSubId rest)"

text \<open>Lines 477-490. \<open>None\<close>: reading \<open>subscription\<close> of absent \<open>params\<close> throws.\<close>

definition handleWebSocketMessage :: "client \<Rightarrow> ws_message \<Rightarrow> client option" where
  "handleWebSocketMessage c m =
     (if m_method m = Some ''eth_subscription'' then
        (case m_params m of
           None \<Rightarrow> None
         | Some subscriptionData \<Rightarrow>
             (case find_subscription (n_subscription subscriptionData) (subscriptions c) of
                None \<Rightarrow> Some c
              | Some s \<Rightarrow> Some (invoke (s_callback s) (n_result subscriptionData) c)))
      else Some c)"

text \<open>Settling the promise of a subscribe call; a settled promise stays as it is.\<close>

definition settle :: "pending \<Rightarrow> exn + string \<Rightarrow> client \<Rightarrow> client" where
  "settle h r c = (if h_settled h then c else c\<lparr> settled := settled c @ [(h_id h, r)] \<rparr>)"

text \<open>The test of line 387.\<close>

definition correlates :: "ws_message \<Rightarrow> pending \<Rightarrow> bool" where
  "correlates m h = strict_eq (m_id m) (Some (JNum (int (h_id h))))"

text \<open>\<open>messageHandler\<close>, lines 388-402, once the ids are equal. Taking the handler off
  the listeners is left to \<open>emit_listeners\<close>.\<close>

definition messageHandler :: "pending \<Rightarrow> ws_message \<Rightarrow> client \<Rightarrow> client" where
  "messageHandler h m c =
     (case m_error m of
        Some e \<Rightarrow>
          settle h (Inl (MegaETH (MegaETHError
                           (case e_message e of None \<Rightarrow> [] | Some t \<Rightarrow> t) (e_code e) None))) c
      | None \<Rightarrow>
          settle h (Inr (h_subscriptionId h))
            (c\<lparr> subscriptions :=
                  AList.update (h_subscriptionId h)
                    \<lparr> s_id = m_result m, s_eventType = h_eventType h,
                      s_params = h_params h, s_callback = NoOp \<rparr>
                    (subscriptions c) \<rparr>))"

text \<open>
  \<open>emit("message", m)\<close>: \<open>forEach\<close> over the listeners. A handler that correlates takes
  itself off the array while \<open>forEach\<close> runs, the later listeners move one place down and
  \<open>forEach\<close> steps over the one that followed it. When the client's listener throws,
  \<open>forEach\<close> stops there.
\<close>

fun emit_listeners :: "ws_message \<Rightarrow> listener list \<Rightarrow> client \<Rightarrow> listener list \<times> client" where
  "emit_listeners m [] c = ([], c)"
| "emit_listeners m (ClientListener # rest) c =
     (case handleWebSocketMessage c m of
        None \<Rightarrow> (ClientListener # rest, c)
      | Some c' \<Rightarrow>
          (case emit_listeners m rest c' of (rest', c'') \<Rightarrow> (ClientListener # rest', c'')))"
| "emit_listeners m [MessageHandler h] c =
     (if correlates m h then ([], messageHandler h m c) else ([MessageHandler h], c))"
| "emit_listeners m (MessageHandler h # l # rest) c =
     (if correlates m h
      then (case emit_listeners m rest (messageHandler h m c) of
              (rest', c') \<Rightarrow> (l # rest', c'))
      else (case emit_listeners m (l # rest) c of
              (rest', c') \<Rightarrow> (MessageHandler h # rest', c')))"

definition emit_message :: "client \<Rightarrow> ws_message \<Rightarrow> client" where
  "emit_message c m =
     (case wsManager c of
        None \<Rightarrow> c
      | Some ws \<Rightarrow>
          (case emit_listeners m (messageListeners ws) c of
             (ls, c') \<Rightarrow> c'\<lparr> wsManager := Some (ws\<lparr> messageListeners := ls \<rparr>) \<rparr>))"

text \<open>
  The 10000 ms timer of request \<open>rid\<close> fires (lines 382-384). It is armed as long as the
  handler is registered; firing it on a settled promise changes nothing.
\<close>

fun expire :: "nat \<Rightarrow> listener list \<Rightarrow> listener list option" where
  "expire rid [] = None"
| "expire rid (ClientListener # rest) = map_option ((#) ClientListener) (expire rid rest)"
| "expire rid (MessageHandler h # rest) =
     (if h_id h = rid \<and> \<not> h_settled h
      then Some (MessageHandler (h\<lparr> h_settled := True \<rparr>) # rest)
      else map_option ((#) (MessageHandler h)) (expire rid rest))"

definition subscription_timeout :: "client \<Rightarrow> nat \<Rightarrow> client" where
  "subscription_timeout c rid =
     (case wsManager c of
        None \<Rightarrow> c
      | Some ws \<Rightarrow>
          (case expire rid (messageListeners ws) of
             None \<Rightarrow> c
           | Some ls \<Rightarrow>
               c\<lparr> wsManager := Some (ws\<lparr> messageListeners := ls \<rparr>),
                  settled := settled c @ [(rid, Inl (Error (plain ''Subscription timeout'')))] \<rparr>))"

subsection \<open>A whole subscribe call\<close>

text \<open>What the server does with a subscribe request: it answers with a result, with an
  error, or not within the 10000 ms.\<close>

datatype reply = Result "json option" | ErrorReply rpc_error_object | NoReply

definition reply_message :: "nat \<Rightarrow> reply \<Rightarrow> ws_message" where
  "reply_message rid r =
     \<lparr> m_id = Some (JNum (int rid)), m_method = None, m_params = None,
       m_result = (case r of Result v \<Rightarrow> v | ErrorReply e \<Rightarrow> None | NoReply \<Rightarrow> None),
       m_error = (case r of Result v \<Rightarrow> None | ErrorReply e \<Rightarrow> Some e | NoReply \<Rightarrow> None) \<rparr>"

record subscribe_env =
  socket :: socket_outcome
  handle :: string
  server :: reply

text \<open>
  \<open>await subscribe(eventType, params)\<close> with nothing else running meanwhile: the request,
  then the response or the timer. The value is how the promise settled during the wait;
  \<open>None\<close> would be a promise still pending.
\<close>

definition subscribe :: "client \<Rightarrow> string \<Rightarrow> json \<Rightarrow> subscribe_env
    \<Rightarrow> (exn + string) option \<times> client" where
  "subscribe c eventType params env =
     (case subscribe_request c eventType params (socket env) (handle env) of
        (Inl x, c') \<Rightarrow> (Some (Inl x), c')
      | (Inr rid, c') \<Rightarrow>
          let c'' = (case server env of
                       NoReply \<Rightarrow> subscription_timeout c' rid
                     | Result v \<Rightarrow> emit_message c' (reply_message rid (server env))
                     | ErrorReply e \<Rightarrow> emit_message c' (reply_message rid (server env)))
          in (map_of (drop (length (settled c')) (settled c'')) rid, c''))"

subsection \<open>unsubscribe, setSubscriptionCallback\<close>

text \<open>\<open>JSON.stringify\<close> writes an \<open>undefined\<close> array element as \<open>null\<close>.\<close>

definition wire :: "json option \<Rightarrow> json" where
  "wire v = (case v of None \<Rightarrow> JNull | Some j \<Rightarrow> j)"

definition unsubscribe :: "client \<Rightarrow> string \<Rightarrow> bool \<times> client" where
  "unsubscribe c subscriptionId =
     (case map_of (subscriptions c) subscriptionId of
        None \<Rightarrow> (False, c)
      | Some s \<Rightarrow>
          (case wsManager c of
             None \<Rightarrow> (False, c)
           | Some ws \<Rightarrow>
               (case alloc c of (rid, c') \<Rightarrow>
                  let body = \<lparr> p_id = rid, p_method = ''eth_unsubscribe'',
                               p_params = [wire (s_id s)] \<rparr>
                  in (case send ws body of
                        Some ws' \<Rightarrow>
                          (True, c'\<lparr> wsManager := Some ws',
                                    subscriptions :=
                                      AList.delete subscriptionId (subscriptions c') \<rparr>)
                      | None \<Rightarrow> (False, c')))))"

definition setSubscriptionCallback :: "client \<Rightarrow> string \<Rightarrow> callback \<Rightarrow> client" where
  "setSubscriptionCallback c subscriptionId cb =
     (case map_of (subscriptions c) subscriptionId of
        None \<Rightarrow> c
      | Some s \<Rightarrow>
          c\<lparr> subscriptions :=
                AList.update subscriptionId (s\<lparr> s_callback := cb \<rparr>) (subscriptions c) \<rparr>)"

subsection \<open>resubscribeAll\<close>

text \<open>The loop of lines 496-502; \<open>env i\<close> is what the \<open>i\<close>-th \<open>subscribe\<close> meets. A failed
  \<open>subscribe\<close> is logged and the loop goes on.\<close>

fun resubscribe_each :: "client \<Rightarrow> (string \<times> subscription) list \<Rightarrow> nat
    \<Rightarrow> (nat \<Rightarrow> subscribe_env) \<Rightarrow> client" where
  "resubscribe_each c [] i env = c"
| "resubscribe_each c ((localId, s) # rest) i env =
     resubscribe_each (snd (subscribe c (s_eventType s) (s_params s) (env i))) rest (Suc i) env"

definition resubscribeAll :: "client \<Rightarrow> (nat \<Rightarrow> subscribe_env) \<Rightarrow> client" where
  "resubscribeAll c env =
     (let currentSubscriptions = subscriptions c
      in resubscribe_each (c\<lparr> subscriptions := [] \<rparr>) currentSubscriptions 0 env)"

subsection \<open>Events that reach the client through its manager\<close>

text \<open>The socket \<open>this.connection\<close> names closes; the attempt of that socket ends.\<close>

definition socket_close :: "client \<Rightarrow> client" where
  "socket_close c = c\<lparr> wsManager := map_option (socket_closes Current) (wsManager c) \<rparr>"

definition socket_attempt :: "client \<Rightarrow> socket_outcome \<Rightarrow> client" where
  "socket_attempt c out =
     c\<lparr> wsManager := map_option (socket_event Current out) (wsManager c) \<rparr>"

text \<open>The same for the socket of an earlier attempt.\<close>

definition earlier_socket_close :: "client \<Rightarrow> nat \<Rightarrow> client" where
  "earlier_socket_close c k =
     c\<lparr> wsManager := map_option (socket_closes (Earlier k)) (wsManager c) \<rparr>"

definition earlier_socket_attempt :: "client \<Rightarrow> nat \<Rightarrow> socket_outcome \<Rightarrow> client" where
  "earlier_socket_attempt c k out =
     c\<lparr> wsManager := map_option (socket_event (Earlier k) out) (wsManager c) \<rparr>"

text \<open>The synchronous part of a \<open>connectWebSocket()\<close> of any caller.\<close>

definition connect_call :: "client \<Rightarrow> client" where
  "connect_call c = c\<lparr> wsManager := map_option (\<lambda>ws. snd (connect ws)) (wsManager c) \<rparr>"

text \<open>A reconnect timer fires, lines 206-213: \<open>connect()\<close>, then \<open>reconnected\<close>, to which
  the client answers with \<open>resubscribeAll\<close>, or \<open>reconnectFailed\<close>, to which nobody listens.\<close>

definition reconnect_timer :: "client \<Rightarrow> socket_outcome \<Rightarrow> (nat \<Rightarrow> subscribe_env) \<Rightarrow> client" where
  "reconnect_timer c out env =
     (case wsManager c of
        None \<Rightarrow> c
      | Some ws \<Rightarrow>
          (case connect_await ws out of
             (Inr u, ws') \<Rightarrow>
               resubscribeAll
                 (c\<lparr> wsManager := Some (ws'\<lparr> emitted := emitted ws' @ [''reconnected''] \<rparr>) \<rparr>) env
           | (Inl e, ws') \<Rightarrow>
               c\<lparr> wsManager := Some (ws'\<lparr> emitted := emitted ws' @ [''reconnectFailed''] \<rparr>) \<rparr>))"

section \<open>Runs\<close>

text \<open>
  One client, used by many callers. JavaScript runs one piece of code at a time, so a run
  is a sequence of pieces: the synchronous part of a call, an event of the socket, a
  timer. A subscribe call is \<open>SubscribeBegin\<close>, then the outcome of the connection
  attempt (\<open>SocketAttempt\<close>), then \<open>SubscribeSend\<close>, then its response as a \<open>Message\<close> or
  its timer as a \<open>SubscriptionTimeout\<close>, and other pieces may run between any two of
  them. \<open>SubscribeRequest\<close> is the same call up to its wait for the response when nothing
  runs while it waits for the socket, and \<open>SubscribeCall\<close> is a subscribe call that
  nothing interrupts at all. \<open>SocketAttempt\<close> and \<open>SocketClose\<close> are events of the socket
  \<open>this.connection\<close> names, \<open>EarlierSocketAttempt\<close> and \<open>EarlierSocketClose\<close> those of the
  socket of an earlier attempt.
\<close>

datatype operation =
    CallRPC string "json list" http_outcome
  | SubscribeBegin
  | SocketAttempt socket_outcome
  | SubscribeSend string json string
  | SubscribeRequest string json socket_outcome string
  | SubscribeCall string json subscribe_env
  | Unsubscribe string
  | SetSubscriptionCallback string callback
  | Message ws_message
  | SubscriptionTimeout nat
  | SocketClose
  | Connect
  | EarlierSocketAttempt nat socket_outcome
  | EarlierSocketClose nat
  | ReconnectTimer socket_outcome "nat \<Rightarrow> subscribe_env"

fun step :: "client \<Rightarrow> operation \<Rightarrow> client" where
  "step c (CallRPC method params out) = snd (callRPC c method params out)"
| "step c SubscribeBegin = snd (subscribe_begin c)"
| "step c (SocketAttempt out) = socket_attempt c out"
| "step c (SubscribeSend eventType params subscriptionId) =
     snd (subscribe_send c eventType params subscriptionId)"
| "step c (SubscribeRequest eventType params out subscriptionId) =
     snd (subscribe_request c eventType params out subscriptionId)"
| "step c (SubscribeCall eventType params env) = snd (subscribe c eventType params env)"
| "step c (Unsubscribe subscriptionId) = snd (unsubscribe c subscriptionId)"
| "step c (SetSubscriptionCallback subscriptionId cb) = setSubscriptionCallback c subscriptionId cb"
| "step c (Message m) = emit_message c m"
| "step c (SubscriptionTimeout rid) = subscription_timeout c rid"
| "step c SocketClose = socket_close c"
| "step c Connect = connect_call c"
| "step c (EarlierSocketAttempt k out) = earlier_socket_attempt c k out"
| "step c (EarlierSocketClose k) = earlier_socket_close c k"
| "step c (ReconnectTimer out env) = reconnect_timer c out env"

definition run :: "client \<Rightarrow> operation list \<Rightarrow> client" where
  "run c ops = foldl step c ops"

text \<open>A piece that belongs to a use of the client without overlap: no subscribe call
  split from its response, and no message that carries a request id outside such a call.\<close>

fun sequential :: "operation \<Rightarrow> bool" where
  "sequential (SubscribeRequest eventType params out subscriptionId) = False"
| "sequential SubscribeBegin = False"
| "sequential (SubscribeSend eventType params subscriptionId) = False"
| "sequential (Message m) = (m_id m = None)"
| "sequential op = True"

section \<open>Invariants of runs\<close>

text \<open>The listeners of the client's manager; none without a manager.\<close>

definition listeners :: "client \<Rightarrow> listener list" where
  "listeners c = (case wsManager c of None \<Rightarrow> [] | Some ws \<Rightarrow> messageListeners ws)"

text \<open>The ids handed out so far grow strictly and lie below the counter.\<close>

definition ids_increase :: "client \<Rightarrow> bool" where
  "ids_increase c = (sorted_wrt (<) (issued c) \<and> (\<forall>i \<in> set (issued c). i < requestId c))"

text \<open>Every registered handler waits for an id that has been handed out.\<close>

fun behind :: "nat \<Rightarrow> listener \<Rightarrow> bool" where
  "behind n ClientListener = True"
| "behind n (MessageHandler h) = (h_id h < n)"

definition handlers_behind :: "client \<Rightarrow> bool" where
  "handlers_behind c = list_all (behind (requestId c)) (listeners c)"

text \<open>The table holds no more entries than the limit allows.\<close>

definition within_limit :: "client \<Rightarrow> bool" where
  "within_limit c = (int (length (subscriptions c)) \<le> maxSubscriptions c)"

text \<open>
  What any piece of code does to the counter: it never goes down, and as long as it is
  below \<open>2 ^ 53\<close> the ids handed out keep growing.
\<close>

definition hands_out :: "client \<Rightarrow> client \<Rightarrow> bool" where
  "hands_out c c' =
     (requestId c \<le> requestId c' \<and>
      (requestId c' < 2 ^ 53 \<longrightarrow> ids_increase c \<longrightarrow> ids_increase c'))"

text \<open>Every request the client has sent, over HTTP and over the socket.\<close>

definition requests :: "client \<Rightarrow> payload list" where
  "requests c = httpPosts c @ (case wsManager c of None \<Rightarrow> [] | Some ws \<Rightarrow> sent ws)"

text \<open>The requests carry ids that were handed out, no two the same.\<close>

definition ids_used :: "client \<Rightarrow> bool" where
  "ids_used c =
     (set (map p_id (requests c)) \<subseteq> set (issued c) \<and> distinct (map p_id (requests c)))"

definition tracks :: "client \<Rightarrow> client \<Rightarrow> bool" where
  "tracks c c' =
     (hands_out c c' \<and>
      (requestId c' < 2 ^ 53 \<longrightarrow> ids_increase c \<longrightarrow> ids_used c \<longrightarrow> ids_used c'))"

text \<open>
  While the flag \<open>isConnecting\<close> is up, \<open>this.connection\<close> names a connecting socket: the
  flag is raised with the creation of that socket only, and every event of that socket
  lowers it.
\<close>

definition attempt_in_flight :: "ws_manager \<Rightarrow> bool" where
  "attempt_in_flight ws \<longleftrightarrow> (isConnecting ws \<longrightarrow> connection ws = Some CONNECTING)"

definition flag_sound :: "client \<Rightarrow> bool" where
  "flag_sound c = (case wsManager c of None \<Rightarrow> True | Some ws \<Rightarrow> attempt_in_flight ws)"

section \<open>Properties of the connection manager\<close>

lemma includes_str_iff: "includes_str s t \<longleftrightarrow> (\<exists>u v. s = u @ t @ v)"
proof (induction s)
  case Nil
  then show ?case by auto
next
  case (Cons x xs)
  show ?case
  proof
    assume "includes_str (x # xs) t"
    then consider "prefix t (x # xs)" | "includes_str xs t" by auto
    then show "\<exists>u v. x # xs = u @ t @ v"
    proof cases
      case 1
      then obtain v where "x # xs = t @ v" by (auto simp: prefix_def)
      then have "x # xs = [] @ t @ v" by simp
      then show ?thesis by blast
    next
      case 2
      with Cons.IH obtain u v where "xs = u @ t @ v" by blast
      then have "x # xs = (x # u) @ t @ v" by simp
      then show ?thesis by blast
    qed
  next
    assume "\<exists>u v. x # xs = u @ t @ v"
    then obtain u v where uv: "x # xs = u @ t @ v" by blast
    show "includes_str (x # xs) t"
    proof (cases u)
      case Nil
      with uv have "prefix t (x # xs)" by (simp add: prefix_def)
      then show ?thesis by simp
    next
      case (Cons y ys)
      with uv have "xs = ys @ t @ v" by simp
      with Cons.IH have "includes_str xs t" by blast
      then show ?thesis by simp
    qed
  qed
qed

lemma handleReconnection_cases:
  "handleReconnection ws =
     (if reconnectAttempts ws \<ge> maxReconnectAttempts ws
      then ws\<lparr> emitted := emitted ws @ [''maxReconnectAttemptsReached''] \<rparr>
      else ws\<lparr> reconnectAttempts := reconnectAttempts ws + 1,
               timers := timers ws @ [reconnectDelay ws * 2 ^ reconnectAttempts ws] \<rparr>)"
  by (simp add: handleReconnection_def Let_def)

lemma on_close_fields:
  "maxReconnectAttempts (on_close ws) = maxReconnectAttempts ws"
  "reconnectDelay (on_close ws) = reconnectDelay ws"
  by (simp_all add: on_close_def handleReconnection_cases)

lemma closes_timers:
  "timers (closes n ws) = timers ws @
     map (\<lambda>k. reconnectDelay ws * 2 ^ k)
       [reconnectAttempts ws ..<
          min (reconnectAttempts ws + n) (max (reconnectAttempts ws) (maxReconnectAttempts ws))]"
proof (induction n arbitrary: ws)
  case 0
  then show ?case by simp
next
  case (Suc n)
  show ?case
  proof (cases "reconnectAttempts ws \<ge> maxReconnectAttempts ws")
    case True
    then have "timers (on_close ws) = timers ws"
      and "reconnectAttempts (on_close ws) = reconnectAttempts ws"
      by (simp_all add: on_close_def handleReconnection_cases)
    with True show ?thesis
      using Suc.IH [of "on_close ws"] by (simp add: on_close_fields max_def)
  next
    case False
    then have t: "timers (on_close ws) = timers ws @ [reconnectDelay ws * 2 ^ reconnectAttempts ws]"
      and a: "reconnectAttempts (on_close ws) = Suc (reconnectAttempts ws)"
      by (simp_all add: on_close_def handleReconnection_cases)
    from False have lt: "reconnectAttempts ws < maxReconnectAttempts ws" by simp
    have "[reconnectAttempts ws ..< min (reconnectAttempts ws + Suc n) (maxReconnectAttempts ws)]
        = reconnectAttempts ws #
          [Suc (reconnectAttempts ws) ..<
             min (Suc (reconnectAttempts ws) + n) (maxReconnectAttempts ws)]"
      using lt by (simp add: upt_conv_Cons)
    with lt show ?thesis
      using Suc.IH [of "on_close ws"] by (simp add: on_close_fields t a max_def)
  qed
qed

lemma closes_numeral: "closes (numeral k) ws = closes (pred_numeral k) (on_close ws)"
  by (simp add: numeral_eq_Suc)

text \<open>
  C6. A close of the socket below the maximum of attempts raises the attempt counter by
  one and sets one reconnect timer, of \<open>reconnectDelay * 2 ^ (attempt - 1)\<close> for the new
  value of the counter, and emits nothing. A close with the counter at the maximum sets
  no timer, leaves the counter and emits \<open>maxReconnectAttemptsReached\<close>. Closes in a row
  from a counter of zero set the timers \<open>reconnectDelay\<close>, \<open>2 * reconnectDelay\<close>,
  \<open>4 * reconnectDelay\<close>, ..., one per close until the maximum of attempts is reached.
\<close>

theorem on_close_backoff:
  "(reconnectAttempts ws < maxReconnectAttempts ws \<longrightarrow>
      reconnectAttempts (on_close ws) = reconnectAttempts ws + 1 \<and>
      timers (on_close ws) =
        timers ws @ [reconnectDelay ws * 2 ^ (reconnectAttempts (on_close ws) - 1)] \<and>
      emitted (on_close ws) = emitted ws) \<and>
   (reconnectAttempts ws \<ge> maxReconnectAttempts ws \<longrightarrow>
      reconnectAttempts (on_close ws) = reconnectAttempts ws \<and>
      timers (on_close ws) = timers ws \<and>
      emitted (on_close ws) = emitted ws @ [''maxReconnectAttemptsReached'']) \<and>
   (reconnectAttempts ws = 0 \<longrightarrow>
      timers (closes n ws) =
        timers ws @ map (\<lambda>k. reconnectDelay ws * 2 ^ k) [0 ..< min n (maxReconnectAttempts ws)])"
proof (intro conjI impI)
  assume "reconnectAttempts ws = 0"
  then show "timers (closes n ws) =
        timers ws @ map (\<lambda>k. reconnectDelay ws * 2 ^ k) [0 ..< min n (maxReconnectAttempts ws)]"
    using closes_timers [of n ws] by simp
qed (simp_all add: on_close_def handleReconnection_cases)

theorem on_close_backoff_witness:
  "reconnectAttempts new_ws_manager < maxReconnectAttempts new_ws_manager \<and>
   reconnectAttempts (closes 5 new_ws_manager) \<ge> maxReconnectAttempts (closes 5 new_ws_manager) \<and>
   reconnectAttempts new_ws_manager = 0 \<and>
   timers (on_close new_ws_manager) = [1000] \<and>
   timers (closes 7 new_ws_manager) = [1000, 2000, 4000, 8000, 16000] \<and>
   timers (on_close (closes 5 new_ws_manager)) = [1000, 2000, 4000, 8000, 16000] \<and>
   emitted (on_close (closes 5 new_ws_manager)) = [''maxReconnectAttemptsReached'']"
proof -
  have c5: "closes 5 new_ws_manager =
      new_ws_manager\<lparr> reconnectAttempts := 5,
                      timers := [1000, 2000, 4000, 8000, 16000] \<rparr>"
    by (simp add: closes_numeral on_close_def handleReconnection_cases new_ws_manager_def)
  have h1: "reconnectAttempts new_ws_manager < maxReconnectAttempts new_ws_manager"
    and h3: "reconnectAttempts new_ws_manager = 0"
    by (simp_all add: new_ws_manager_def)
  have h2: "reconnectAttempts (closes 5 new_ws_manager)
      \<ge> maxReconnectAttempts (closes 5 new_ws_manager)"
    by (simp add: c5) (simp add: new_ws_manager_def)
  from on_close_backoff [of new_ws_manager 7] h1 h3
  have a: "timers (on_close new_ws_manager) = [1000]"
    and b: "timers (closes 7 new_ws_manager) = [1000, 2000, 4000, 8000, 16000]"
    by (simp_all add: new_ws_manager_def upt_rec)
  from on_close_backoff [of "closes 5 new_ws_manager" 0] h2
  have c: "timers (on_close (closes 5 new_ws_manager)) = [1000, 2000, 4000, 8000, 16000]"
    and d: "emitted (on_close (closes 5 new_ws_manager)) = [''maxReconnectAttemptsReached'']"
    by (simp_all add: c5) (simp_all add: new_ws_manager_def)
  from h1 h2 h3 a b c d show ?thesis by blast
qed

lemma connect_in_flight:
  "\<not> is_open ws \<Longrightarrow> isConnecting ws \<Longrightarrow> connect ws = (Waiting, ws)"
  by (simp add: connect_def)

lemma connects_in_flight:
  "\<not> is_open ws \<Longrightarrow> isConnecting ws \<Longrightarrow> connects n ws = (replicate n Waiting, ws)"
  by (induction n) (simp_all add: connect_in_flight)

lemma connect_already_open: "is_open ws \<Longrightarrow> connect ws = (AlreadyOpen, ws)"
  by (simp add: connect_def)

lemma connects_idle:
  assumes "\<not> is_open ws" and "\<not> isConnecting ws"
  shows "fst (connects (Suc n) ws) = Started # replicate n Waiting"
    and "socketsOpened (snd (connects (Suc n) ws)) = socketsOpened ws + 1"
proof -
  from assms obtain ws' where c: "connect ws = (Started, ws')"
    and f: "\<not> is_open ws'" "isConnecting ws'" "socketsOpened ws' = socketsOpened ws + 1"
    by (simp add: connect_def is_open_def)
  from f have "connects n ws' = (replicate n Waiting, ws')"
    by (intro connects_in_flight)
  with c have e: "connects (Suc n) ws = (Started # replicate n Waiting, ws')" by simp
  show "fst (connects (Suc n) ws) = Started # replicate n Waiting"
    by (simp only: e fst_conv)
  show "socketsOpened (snd (connects (Suc n) ws)) = socketsOpened ws + 1"
    by (simp only: e snd_conv f)
qed

lemma handleReconnection_frame:
  "connection (handleReconnection ws) = connection ws"
  "earlier (handleReconnection ws) = earlier ws"
  "isConnecting (handleReconnection ws) = isConnecting ws"
  "messageListeners (handleReconnection ws) = messageListeners ws"
  "sent (handleReconnection ws) = sent ws"
  "socketsOpened (handleReconnection ws) = socketsOpened ws"
  by (simp_all add: handleReconnection_def Let_def)

lemmas socket_defs = socket_event_def socket_opens_def socket_fails_def socket_closes_def
  on_open_def on_error_def on_close_def on_connect_timeout_def ready_of_def set_ready_def

lemmas manager_piece_defs = socket_close_def socket_attempt_def earlier_socket_close_def
  earlier_socket_attempt_def connect_call_def

lemma socket_closes_frame:
  "messageListeners (socket_closes r ws) = messageListeners ws"
  "sent (socket_closes r ws) = sent ws"
  by (simp_all add: socket_defs handleReconnection_frame
        split: option.splits socket_ref.splits)

lemma socket_event_frame:
  "messageListeners (socket_event r out ws) = messageListeners ws"
  "sent (socket_event r out ws) = sent ws"
  by (simp_all add: socket_defs handleReconnection_frame
        split: option.splits socket_ref.splits socket_outcome.splits)

lemma connect_frame:
  "messageListeners (snd (connect ws)) = messageListeners ws"
  "sent (snd (connect ws)) = sent ws"
  by (simp_all add: connect_def)

lemma attempt_in_flight_connect: "attempt_in_flight ws \<Longrightarrow> attempt_in_flight (snd (connect ws))"
  by (simp add: attempt_in_flight_def connect_def)

lemma attempt_in_flight_event:
  "attempt_in_flight ws \<Longrightarrow> attempt_in_flight (socket_event r out ws)"
  "attempt_in_flight ws \<Longrightarrow> attempt_in_flight (socket_closes r ws)"
  by (simp_all add: attempt_in_flight_def socket_defs handleReconnection_frame
        split: socket_outcome.splits option.splits socket_ref.splits)

text \<open>
  A failed handshake: the caller is rejected with the error of the socket, and by then
  the socket is closed and its \<open>close\<close> handler has counted an attempt and set a
  reconnect timer.
\<close>

lemma connect_await_error:
  "fst (connect_await new_ws_manager (Errors ''refused'')) = Inl (plain ''refused'')"
  "connection (snd (connect_await new_ws_manager (Errors ''refused''))) = Some CLOSED"
  "isConnecting (snd (connect_await new_ws_manager (Errors ''refused''))) = False"
  "reconnectAttempts (snd (connect_await new_ws_manager (Errors ''refused''))) = 1"
  "timers (snd (connect_await new_ws_manager (Errors ''refused''))) = [1000]"
  by (simp_all add: connect_await_def connect_def is_open_def new_ws_manager_def socket_defs
        handleReconnection_def Let_def)

text \<open>The poll of a caller that joined an attempt in flight, when it is the next code
  to run after the end of that attempt, settles the caller.\<close>

lemma joined_poll_settles:
  assumes "attempt_in_flight ws" and "isConnecting ws"
  shows "checkConnection (socket_event Current out ws) \<noteq> PollAgain"
  using assms
  by (cases out)
     (simp_all add: attempt_in_flight_def socket_defs handleReconnection_frame
        checkConnection_def is_open_def)

text \<open>
  C9. Calls of \<open>connect()\<close> made while an attempt is in flight do not all wait on that
  attempt, and those that wait are not all settled as the attempt is.

  First run: a call starts an attempt, whose connection timer fires; the socket of that
  attempt stays as it is. A second call starts a second attempt. The socket of the first
  attempt opens now and its handler lowers the flag \<open>isConnecting\<close>. The socket of the
  second attempt is still connecting, yet a third call does not wait on it: it creates a
  third socket.

  Second run: a call starts an attempt and a second call joins it. The socket opens, and
  closes before the next poll of the second caller: that poll rejects the second caller,
  though the attempt it joined succeeded.

  Third run: a call starts an attempt and a second call joins it. The socket fails.
  Before the next poll of the second caller a third call starts another attempt, whose
  socket opens: that poll resolves the second caller, though the attempt it joined
  failed, and two sockets were created.
\<close>

theorem connect_not_coalesced:
  "map_option (fst \<circ> connect) (wsManager (new_client True None)) = Some Started \<and>
   map_option (fst \<circ> connect) (wsManager (run (new_client True None)
      [Connect, SocketAttempt TimesOut])) = Some Started \<and>
   map_option connection (wsManager (run (new_client True None)
      [Connect, SocketAttempt TimesOut, Connect, EarlierSocketAttempt 0 Opens]))
     = Some (Some CONNECTING) \<and>
   map_option (fst \<circ> connect) (wsManager (run (new_client True None)
      [Connect, SocketAttempt TimesOut, Connect, EarlierSocketAttempt 0 Opens]))
     = Some Started \<and>
   map_option socketsOpened (wsManager (run (new_client True None)
      [Connect, SocketAttempt TimesOut, Connect, EarlierSocketAttempt 0 Opens, Connect]))
     = Some 3 \<and>
   map_option (fst \<circ> connect) (wsManager (run (new_client True None) [Connect]))
     = Some Waiting \<and>
   map_option checkConnection (wsManager (run (new_client True None)
      [Connect, Connect, SocketAttempt Opens])) = Some Resolved \<and>
   map_option checkConnection (wsManager (run (new_client True None)
      [Connect, Connect, SocketAttempt Opens, SocketClose])) = Some Rejected \<and>
   map_option (fst \<circ> connect) (wsManager (run (new_client True None)
      [Connect, Connect, SocketAttempt (Errors ''refused'')])) = Some Started \<and>
   map_option checkConnection (wsManager (run (new_client True None)
      [Connect, Connect, SocketAttempt (Errors ''refused''), Connect, SocketAttempt Opens]))
     = Some Resolved \<and>
   map_option socketsOpened (wsManager (run (new_client True None)
      [Connect, Connect, SocketAttempt (Errors ''refused''), Connect, SocketAttempt Opens]))
     = Some 2"
  by (simp add: run_def new_client_def new_ws_manager_def manager_piece_defs socket_defs
        connect_def is_open_def checkConnection_def handleReconnection_def Let_def)

section \<open>Properties of callRPC\<close>

lemma callRPC_try_error:
  "callRPC_try params (Response \<lparr> r_error = Some \<lparr> e_message = Some m, e_code = cd, e_data = d \<rparr>, r_result = r \<rparr>) =
     Inl (MegaETH
       (if includes_str m ''realtime transaction expired''
        then RealtimeTransactionExpiredError (or_default (first_param params) (JStr ''unknown''))
        else if includes_str m ''mini block not found''
        then MiniBlockNotFoundError (or_default (first_param params) (JNum 0))
        else MegaETHError (if m = [] then ''Unknown RPC error'' else m)
               (Some (or_default cd (JStr ''UNKNOWN''))) d))"
  by (simp add: callRPC_try_def Let_def)

lemma callRPC_fst:
  "method \<noteq> [] \<Longrightarrow>
   fst (callRPC c method params out) =
     (case callRPC_try params out of
        Inl x \<Rightarrow> Inl (callRPC_catch method params x) | Inr r \<Rightarrow> Inr r)"
  by (simp add: callRPC_def alloc_def Let_def split: sum.splits)

text \<open>
  C3. For a response whose \<open>error\<close> has the message text \<open>m\<close>, the code \<open>cd\<close> and
  the data \<open>d\<close>, \<open>callRPC\<close> with a method name throws, in this order of priority: the
  transaction-expired error when \<open>m\<close> contains \<open>realtime transaction expired\<close>; else the
  mini-block-not-found error when \<open>m\<close> contains \<open>mini block not found\<close>; else the generic
  error, whose data is \<open>d\<close> as supplied and whose code is \<open>cd\<close> when \<open>cd\<close> is supplied and
  truthy, and the string \<open>UNKNOWN\<close> when \<open>cd\<close> is absent.
\<close>

theorem callRPC_classifies:
  assumes "method \<noteq> []"
  shows
  "((\<exists>u v. m = u @ ''realtime transaction expired'' @ v) \<longrightarrow>
      fst (callRPC c method params
             (Response \<lparr> r_error = Some \<lparr> e_message = Some m, e_code = cd, e_data = d \<rparr>,
                         r_result = r \<rparr>))
        = Inl (MegaETH (RealtimeTransactionExpiredError
                          (or_default (first_param params) (JStr ''unknown''))))) \<and>
   (\<not> (\<exists>u v. m = u @ ''realtime transaction expired'' @ v) \<and>
    (\<exists>u v. m = u @ ''mini block not found'' @ v) \<longrightarrow>
      fst (callRPC c method params
             (Response \<lparr> r_error = Some \<lparr> e_message = Some m, e_code = cd, e_data = d \<rparr>,
                         r_result = r \<rparr>))
        = Inl (MegaETH (MiniBlockNotFoundError (or_default (first_param params) (JNum 0))))) \<and>
   (\<not> (\<exists>u v. m = u @ ''realtime transaction expired'' @ v) \<and>
    \<not> (\<exists>u v. m = u @ ''mini block not found'' @ v) \<longrightarrow>
      (\<exists>code.
         fst (callRPC c method params
                (Response \<lparr> r_error = Some \<lparr> e_message = Some m, e_code = cd, e_data = d \<rparr>,
                            r_result = r \<rparr>))
           = Inl (MegaETH (MegaETHError (if m = [] then ''Unknown RPC error'' else m) code d)) \<and>
         (\<forall>v. cd = Some v \<and> truthy v \<longrightarrow> code = Some v) \<and>
         (cd = None \<longrightarrow> code = Some (JStr ''UNKNOWN''))))"
  unfolding includes_str_iff [symmetric]
  using assms
  by (simp add: callRPC_fst callRPC_try_error callRPC_catch_def or_default_def)

lemma includes_boom:
  "\<not> includes_str ''boom'' ''realtime transaction expired''"
  "\<not> includes_str ''boom'' ''mini block not found''"
  by simp_all

lemma includes_both:
  "includes_str ''mini block not found: realtime transaction expired'' ''realtime transaction expired''"
  by simp

lemma includes_mini:
  "\<not> includes_str ''the mini block not found'' ''realtime transaction expired''"
  "includes_str ''the mini block not found'' ''mini block not found''"
  by simp_all

theorem callRPC_classifies_witness:
  "''eth_call'' \<noteq> [] \<and>
   (\<exists>u v. ''mini block not found: realtime transaction expired''
            = u @ ''realtime transaction expired'' @ v) \<and>
   fst (callRPC (new_client False None) ''eth_call'' [JStr ''0xdead'']
          (Response \<lparr> r_error = Some \<lparr> e_message = Some ''mini block not found: realtime transaction expired'',
                                       e_code = Some (JNum (- 32000)), e_data = None \<rparr>,
                      r_result = None \<rparr>))
     = Inl (MegaETH (RealtimeTransactionExpiredError (JStr ''0xdead''))) \<and>
   \<not> (\<exists>u v. ''the mini block not found'' = u @ ''realtime transaction expired'' @ v) \<and>
   (\<exists>u v. ''the mini block not found'' = u @ ''mini block not found'' @ v) \<and>
   fst (callRPC (new_client False None) ''eth_call'' [JNum 123]
          (Response \<lparr> r_error = Some \<lparr> e_message = Some ''the mini block not found'',
                                       e_code = Some (JNum (- 32000)), e_data = None \<rparr>,
                      r_result = None \<rparr>))
     = Inl (MegaETH (MiniBlockNotFoundError (JNum 123))) \<and>
   \<not> (\<exists>u v. ''boom'' = u @ ''realtime transaction expired'' @ v) \<and>
   \<not> (\<exists>u v. ''boom'' = u @ ''mini block not found'' @ v) \<and>
   fst (callRPC (new_client False None) ''eth_call'' []
          (Response \<lparr> r_error = Some \<lparr> e_message = Some ''boom'', e_code = Some (JNum 42),
                                       e_data = Some (JObj [(''a'', JNum 1)]) \<rparr>,
                      r_result = None \<rparr>))
     = Inl (MegaETH (MegaETHError ''boom'' (Some (JNum 42)) (Some (JObj [(''a'', JNum 1)])))) \<and>
   fst (callRPC (new_client False None) ''eth_call'' []
          (Response \<lparr> r_error = Some \<lparr> e_message = Some ''boom'', e_code = None,
                                       e_data = Some (JNum 7) \<rparr>,
                      r_result = None \<rparr>))
     = Inl (MegaETH (MegaETHError ''boom'' (Some (JStr ''UNKNOWN'')) (Some (JNum 7))))"
proof -
  have m: "''eth_call'' \<noteq> []" by simp
  have a: "\<exists>u v. ''mini block not found: realtime transaction expired''
            = u @ ''realtime transaction expired'' @ v"
    using includes_both by (simp only: includes_str_iff)
  have b: "\<not> (\<exists>u v. ''the mini block not found'' = u @ ''realtime transaction expired'' @ v)"
    and b': "\<exists>u v. ''the mini block not found'' = u @ ''mini block not found'' @ v"
    using includes_mini by (simp_all only: includes_str_iff not_False_eq_True)
  have d: "\<not> (\<exists>u v. ''boom'' = u @ ''realtime transaction expired'' @ v)"
    and d': "\<not> (\<exists>u v. ''boom'' = u @ ''mini block not found'' @ v)"
    using includes_boom by (simp_all only: includes_str_iff not_False_eq_True)
  from callRPC_classifies [OF m, of "''mini block not found: realtime transaction expired''"
      "new_client False None" "[JStr ''0xdead'']" "Some (JNum (- 32000))" None None] a
  have r1: "fst (callRPC (new_client False None) ''eth_call'' [JStr ''0xdead'']
          (Response \<lparr> r_error = Some \<lparr> e_message = Some ''mini block not found: realtime transaction expired'',
                                       e_code = Some (JNum (- 32000)), e_data = None \<rparr>,
                      r_result = None \<rparr>))
     = Inl (MegaETH (RealtimeTransactionExpiredError (JStr ''0xdead'')))"
    by (simp add: or_default_def first_param_def)
  from callRPC_classifies [OF m, of "''the mini block not found''"
      "new_client False None" "[JNum 123]" "Some (JNum (- 32000))" None None] b b'
  have r2: "fst (callRPC (new_client False None) ''eth_call'' [JNum 123]
          (Response \<lparr> r_error = Some \<lparr> e_message = Some ''the mini block not found'',
                                       e_code = Some (JNum (- 32000)), e_data = None \<rparr>,
                      r_result = None \<rparr>))
     = Inl (MegaETH (MiniBlockNotFoundError (JNum 123)))"
    by (simp add: or_default_def first_param_def)
  from callRPC_classifies [OF m, of "''boom''"
      "new_client False None" "[]" "Some (JNum 42)" "Some (JObj [(''a'', JNum 1)])" None] d d'
  have r3: "fst (callRPC (new_client False None) ''eth_call'' []
          (Response \<lparr> r_error = Some \<lparr> e_message = Some ''boom'', e_code = Some (JNum 42),
                                       e_data = Some (JObj [(''a'', JNum 1)]) \<rparr>,
                      r_result = None \<rparr>))
     = Inl (MegaETH (MegaETHError ''boom'' (Some (JNum 42)) (Some (JObj [(''a'', JNum 1)]))))"
    by simp
  from callRPC_classifies [OF m, of "''boom''"
      "new_client False None" "[]" None "Some (JNum 7)" None] d d'
  have r4: "fst (callRPC (new_client False None) ''eth_call'' []
          (Response \<lparr> r_error = Some \<lparr> e_message = Some ''boom'', e_code = None,
                                       e_data = Some (JNum 7) \<rparr>,
                      r_result = None \<rparr>))
     = Inl (MegaETH (MegaETHError ''boom'' (Some (JStr ''UNKNOWN'')) (Some (JNum 7))))"
    by simp
  from m a r1 b b' r2 d d' r3 r4 show ?thesis by blast
qed

text \<open>With the code \<open>0\<close>, and with no code, the generic error has the code \<open>UNKNOWN\<close>.\<close>

theorem callRPC_code_counterexample:
  "fst (callRPC (new_client False None) ''eth_call'' []
          (Response \<lparr> r_error = Some \<lparr> e_message = Some ''boom'', e_code = Some (JNum 0),
                                       e_data = None \<rparr>,
                      r_result = None \<rparr>))
     = Inl (MegaETH (MegaETHError ''boom'' (Some (JStr ''UNKNOWN'')) None)) \<and>
   fst (callRPC (new_client False None) ''eth_call'' []
          (Response \<lparr> r_error = Some \<lparr> e_message = Some ''boom'', e_code = None,
                                       e_data = None \<rparr>,
                      r_result = None \<rparr>))
     = Inl (MegaETH (MegaETHError ''boom'' (Some (JStr ''UNKNOWN'')) None)) \<and>
   error_code (MegaETHError ''boom'' (Some (JStr ''UNKNOWN'')) None) \<noteq> Some (JNum 0) \<and>
   error_code (MegaETHError ''boom'' (Some (JStr ''UNKNOWN'')) None) \<noteq> None"
  by (simp add: callRPC_fst callRPC_try_error callRPC_catch_def or_default_def)

text \<open>
  C4. When \<open>callRPC\<close> with a method name fails because the HTTP post throws, the
  error it rethrows carries the method name and the parameter list of the call. An
  error reported in the response body is thrown as a \<open>MegaETHError\<close> and rethrown as it
  is: an error of that class carries neither.
\<close>

theorem callRPC_annotates_transport_failure:
  assumes "method \<noteq> []"
  shows "fst (callRPC c method params (Failure e))
           = Inl (Error (e\<lparr> rpcMethod := Some method, rpcParams := Some params \<rparr>)) \<and>
         exn_rpcMethod (Error (e\<lparr> rpcMethod := Some method, rpcParams := Some params \<rparr>))
           = Some method \<and>
         exn_rpcParams (Error (e\<lparr> rpcMethod := Some method, rpcParams := Some params \<rparr>))
           = Some params \<and>
         (\<exists>x. fst (callRPC c method params
                      (Response \<lparr> r_error = Some \<lparr> e_message = Some m, e_code = cd, e_data = d \<rparr>,
                                  r_result = r \<rparr>)) = Inl (MegaETH x))"
  using assms
  by (simp add: callRPC_fst callRPC_try_error callRPC_try_def callRPC_catch_def)

theorem callRPC_annotates_transport_failure_witness:
  "''eth_getLogsWithCursor'' \<noteq> [] \<and>
   fst (callRPC (new_client False None) ''eth_getLogsWithCursor'' [JObj [(''fromBlock'', JNum 1)]]
          (Failure (plain ''down'')))
     = Inl (Error \<lparr> message = ''down'', rpcMethod = Some ''eth_getLogsWithCursor'',
                     rpcParams = Some [JObj [(''fromBlock'', JNum 1)]] \<rparr>)"
proof -
  have m: "''eth_getLogsWithCursor'' \<noteq> []" by simp
  from callRPC_annotates_transport_failure [OF m, of "new_client False None"
         "[JObj [(''fromBlock'', JNum 1)]]" "plain ''down''"]
  show ?thesis by (simp add: plain_def)
qed

text \<open>The generic error of a response body carries no method name and no parameters.\<close>

theorem callRPC_rpc_error_counterexample:
  "fst (callRPC (new_client False None) ''eth_call'' [JStr ''0x1'']
          (Response \<lparr> r_error = Some \<lparr> e_message = Some ''boom'', e_code = Some (JNum 42),
                                       e_data = None \<rparr>,
                      r_result = None \<rparr>))
     = Inl (MegaETH (MegaETHError ''boom'' (Some (JNum 42)) None)) \<and>
   exn_rpcMethod (MegaETH (MegaETHError ''boom'' (Some (JNum 42)) None)) = None \<and>
   exn_rpcParams (MegaETH (MegaETHError ''boom'' (Some (JNum 42)) None)) = None"
  by (simp add: callRPC_fst callRPC_try_error callRPC_catch_def or_default_def)

section \<open>Properties of the subscription registry\<close>

lemmas client_defs = new_client_def new_ws_manager_def subscribe_def subscribe_request_def
  subscribe_send_def
  connectWebSocket_def connect_await_def connect_def socket_defs handleReconnection_def
  is_open_def
  alloc_def increment_def send_def maxSubscriptions_def emit_message_def reply_message_def
  correlates_def messageHandler_def settle_def handleWebSocketMessage_def
  subscription_timeout_def checkConnection_def

lemma subscribed_once:
  "subscribe (new_client True (Some 1)) ''newHeads'' (JObj [])
     \<lparr> socket = Opens, handle = ''sub_a'', server = Result (Some (JStr ''0xA'')) \<rparr>
   = (Some (Inr ''sub_a''),
      \<lparr> wsManager = Some \<lparr> connection = Some OPEN, earlier = [], reconnectAttempts = 0,
            maxReconnectAttempts = 5, reconnectDelay = 1000, heartbeatInterval = True,
            isConnecting = False, messageListeners = [ClientListener], socketsOpened = 1,
            sent = [\<lparr> p_id = 1, p_method = ''eth_subscribe'',
                      p_params = [JStr ''newHeads'', JObj []] \<rparr>],
            timers = [], emitted = [] \<rparr>,
        subscriptions = [(''sub_a'', \<lparr> s_id = Some (JStr ''0xA''), s_eventType = ''newHeads'',
                           s_params = JObj [], s_callback = NoOp \<rparr>)],
        requestId = 2, megaethMaxSubscriptions = Some 1, issued = [1], httpPosts = [],
        settled = [(1, Inr ''sub_a'')], delivered = [] \<rparr>)"
  by (simp add: client_defs Let_def)

text \<open>The envelope \<open>unsubscribe\<close> builds for a subscription.\<close>

lemma unsubscribe_known:
  assumes "map_of (subscriptions c) h = Some s" and "wsManager c = Some ws"
  shows "unsubscribe c h =
    (case send ws \<lparr> p_id = requestId c, p_method = ''eth_unsubscribe'',
                     p_params = [wire (s_id s)] \<rparr> of
       Some ws' \<Rightarrow> (True, c\<lparr> requestId := increment (requestId c),
                             issued := issued c @ [requestId c],
                             wsManager := Some ws',
                             subscriptions := AList.delete h (subscriptions c) \<rparr>)
     | None \<Rightarrow> (False, c\<lparr> requestId := increment (requestId c),
                           issued := issued c @ [requestId c] \<rparr>))"
  using assms by (simp add: unsubscribe_def alloc_def Let_def split: option.splits)

text \<open>
  C7. When the handle is not a key of the subscription table, or no connection
  manager is configured, \<open>unsubscribe\<close> returns false and the client is as before. When
  the handle is known, a manager is configured and the socket is open, it sends one
  \<open>eth_unsubscribe\<close> envelope that names the server id of the subscription, registers no
  handler for a response, removes the entry of the handle at once and returns true.
\<close>

theorem unsubscribe_unknown_or_open:
  "(map_of (subscriptions c) h = None \<or> wsManager c = None \<longrightarrow> unsubscribe c h = (False, c)) \<and>
   (map_of (subscriptions c) h = Some s \<and> wsManager c = Some ws \<and> is_open ws \<longrightarrow>
      fst (unsubscribe c h) = True \<and>
      subscriptions (snd (unsubscribe c h)) = AList.delete h (subscriptions c) \<and>
      map_of (subscriptions (snd (unsubscribe c h))) h = None \<and>
      wsManager (snd (unsubscribe c h)) =
        Some (ws\<lparr> sent := sent ws @ [\<lparr> p_id = requestId c, p_method = ''eth_unsubscribe'',
                                       p_params = [wire (s_id s)] \<rparr>] \<rparr>) \<and>
      settled (snd (unsubscribe c h)) = settled c)"
proof (intro conjI impI)
  assume "map_of (subscriptions c) h = None \<or> wsManager c = None"
  then show "unsubscribe c h = (False, c)"
    by (auto simp: unsubscribe_def split: option.splits)
next
  assume a: "map_of (subscriptions c) h = Some s \<and> wsManager c = Some ws \<and> is_open ws"
  then have eq: "unsubscribe c h =
      (True, c\<lparr> requestId := increment (requestId c), issued := issued c @ [requestId c],
                wsManager := Some (ws\<lparr> sent := sent ws @
                    [\<lparr> p_id = requestId c, p_method = ''eth_unsubscribe'',
                       p_params = [wire (s_id s)] \<rparr>] \<rparr>),
                subscriptions := AList.delete h (subscriptions c) \<rparr>)"
    by (simp add: unsubscribe_known send_def)
  show "fst (unsubscribe c h) = True" by (simp add: eq)
  show "subscriptions (snd (unsubscribe c h)) = AList.delete h (subscriptions c)"
    by (simp add: eq)
  show "map_of (subscriptions (snd (unsubscribe c h))) h = None"
    by (simp add: eq delete_conv')
  show "wsManager (snd (unsubscribe c h)) =
        Some (ws\<lparr> sent := sent ws @ [\<lparr> p_id = requestId c, p_method = ''eth_unsubscribe'',
                                       p_params = [wire (s_id s)] \<rparr>] \<rparr>)"
    by (simp add: eq)
  show "settled (snd (unsubscribe c h)) = settled c" by (simp add: eq)
qed

theorem unsubscribe_unknown_or_open_witness:
  "map_of (subscriptions (new_client True (Some 1))) ''sub_x'' = None \<and>
   unsubscribe (new_client True (Some 1)) ''sub_x'' = (False, new_client True (Some 1)) \<and>
   fst (unsubscribe
          (snd (subscribe (new_client True (Some 1)) ''newHeads'' (JObj [])
                  \<lparr> socket = Opens, handle = ''sub_a'', server = Result (Some (JStr ''0xA'')) \<rparr>))
          ''sub_a'') = True \<and>
   subscriptions (snd (unsubscribe
          (snd (subscribe (new_client True (Some 1)) ''newHeads'' (JObj [])
                  \<lparr> socket = Opens, handle = ''sub_a'', server = Result (Some (JStr ''0xA'')) \<rparr>))
          ''sub_a'')) = []"
proof -
  have u: "map_of (subscriptions (new_client True (Some 1))) ''sub_x'' = None"
    by (simp add: new_client_def)
  from unsubscribe_unknown_or_open [of "new_client True (Some 1)" "''sub_x''"] u
  have a: "unsubscribe (new_client True (Some 1)) ''sub_x'' = (False, new_client True (Some 1))"
    by blast
  let ?c = "snd (subscribe (new_client True (Some 1)) ''newHeads'' (JObj [])
                  \<lparr> socket = Opens, handle = ''sub_a'', server = Result (Some (JStr ''0xA'')) \<rparr>)"
  let ?s = "\<lparr> s_id = Some (JStr ''0xA''), s_eventType = ''newHeads'',
                           s_params = JObj [], s_callback = NoOp \<rparr>"
  let ?ws = "\<lparr> connection = Some OPEN, earlier = [], reconnectAttempts = 0,
            maxReconnectAttempts = 5, reconnectDelay = 1000, heartbeatInterval = True,
            isConnecting = False, messageListeners = [ClientListener], socketsOpened = 1,
            sent = [\<lparr> p_id = 1, p_method = ''eth_subscribe'',
                      p_params = [JStr ''newHeads'', JObj []] \<rparr>],
            timers = [], emitted = [] \<rparr>"
  have k: "map_of (subscriptions ?c) ''sub_a'' = Some ?s \<and> wsManager ?c = Some ?ws \<and> is_open ?ws"
    by (simp add: subscribed_once is_open_def)
  from unsubscribe_unknown_or_open [of ?c "''sub_a''" ?s ?ws] k
  have b: "fst (unsubscribe ?c ''sub_a'') = True"
    and d: "subscriptions (snd (unsubscribe ?c ''sub_a'')) = AList.delete ''sub_a'' (subscriptions ?c)"
    by blast+
  from d have d': "subscriptions (snd (unsubscribe ?c ''sub_a'')) = []"
    by (simp add: subscribed_once)
  from u a b d' show ?thesis by blast
qed

text \<open>The subscription is known and a manager is configured, but the socket is not open.\<close>

theorem unsubscribe_not_open_counterexample:
  "map_of (subscriptions (socket_close
          (snd (subscribe (new_client True (Some 1)) ''newHeads'' (JObj [])
                  \<lparr> socket = Opens, handle = ''sub_a'', server = Result (Some (JStr ''0xA'')) \<rparr>))))
      ''sub_a'' \<noteq> None \<and>
   wsManager (socket_close
          (snd (subscribe (new_client True (Some 1)) ''newHeads'' (JObj [])
                  \<lparr> socket = Opens, handle = ''sub_a'', server = Result (Some (JStr ''0xA'')) \<rparr>)))
      \<noteq> None \<and>
   fst (unsubscribe (socket_close
          (snd (subscribe (new_client True (Some 1)) ''newHeads'' (JObj [])
                  \<lparr> socket = Opens, handle = ''sub_a'', server = Result (Some (JStr ''0xA'')) \<rparr>)))
        ''sub_a'') = False"
  by (simp add: subscribed_once socket_close_def socket_defs handleReconnection_cases
        unsubscribe_def alloc_def send_def is_open_def Let_def)

text \<open>
  C10. For a known handle with a manager configured, when \<open>send\<close> throws, as it does
  whenever the socket is not open, \<open>unsubscribe\<close> returns false and the subscription
  table, with the entry of the handle, is as before. Whenever the entry of a known handle
  is gone after \<open>unsubscribe\<close>, the send went through and the result is true.
\<close>

theorem unsubscribe_send_throws:
  "(map_of (subscriptions c) h = Some s \<and> wsManager c = Some ws \<and>
    send ws \<lparr> p_id = requestId c, p_method = ''eth_unsubscribe'',
               p_params = [wire (s_id s)] \<rparr> = None \<longrightarrow>
      fst (unsubscribe c h) = False \<and>
      subscriptions (snd (unsubscribe c h)) = subscriptions c \<and>
      map_of (subscriptions (snd (unsubscribe c h))) h = Some s \<and>
      wsManager (snd (unsubscribe c h)) = wsManager c) \<and>
   (map_of (subscriptions c) h = Some s \<and> \<not> is_open ws \<longrightarrow> send ws body = None) \<and>
   (map_of (subscriptions c) h = Some s \<and>
    map_of (subscriptions (snd (unsubscribe c h))) h \<noteq> Some s \<longrightarrow>
      (\<exists>ws0 ws'. wsManager c = Some ws0 \<and>
         send ws0 \<lparr> p_id = requestId c, p_method = ''eth_unsubscribe'',
                     p_params = [wire (s_id s)] \<rparr> = Some ws' \<and>
         wsManager (snd (unsubscribe c h)) = Some ws' \<and>
         fst (unsubscribe c h) = True))"
proof (intro conjI impI)
  assume "map_of (subscriptions c) h = Some s \<and> \<not> is_open ws"
  then show "send ws body = None" by (simp add: send_def)
next
  assume a: "map_of (subscriptions c) h = Some s \<and> wsManager c = Some ws \<and>
    send ws \<lparr> p_id = requestId c, p_method = ''eth_unsubscribe'',
               p_params = [wire (s_id s)] \<rparr> = None"
  then have eq: "unsubscribe c h =
      (False, c\<lparr> requestId := increment (requestId c), issued := issued c @ [requestId c] \<rparr>)"
    by (simp add: unsubscribe_known)
  show "fst (unsubscribe c h) = False" by (simp add: eq)
  show "subscriptions (snd (unsubscribe c h)) = subscriptions c" by (simp add: eq)
  show "map_of (subscriptions (snd (unsubscribe c h))) h = Some s" using a by (simp add: eq)
  show "wsManager (snd (unsubscribe c h)) = wsManager c" by (simp add: eq)
next
  assume a: "map_of (subscriptions c) h = Some s \<and>
    map_of (subscriptions (snd (unsubscribe c h))) h \<noteq> Some s"
  show "\<exists>ws0 ws'. wsManager c = Some ws0 \<and>
         send ws0 \<lparr> p_id = requestId c, p_method = ''eth_unsubscribe'',
                     p_params = [wire (s_id s)] \<rparr> = Some ws' \<and>
         wsManager (snd (unsubscribe c h)) = Some ws' \<and>
         fst (unsubscribe c h) = True"
  proof (cases "wsManager c")
    case None
    with a have "unsubscribe c h = (False, c)" by (simp add: unsubscribe_def)
    with a show ?thesis by simp
  next
    case (Some ws0)
    from a have k: "map_of (subscriptions c) h = Some s" by simp
    show ?thesis
    proof (cases "send ws0 \<lparr> p_id = requestId c, p_method = ''eth_unsubscribe'',
                     p_params = [wire (s_id s)] \<rparr>")
      case None
      with a show ?thesis by (simp add: unsubscribe_known [OF k Some])
    next
      case (Some ws')
      with \<open>wsManager c = Some ws0\<close> show ?thesis
        by (simp add: unsubscribe_known [OF k \<open>wsManager c = Some ws0\<close>])
    qed
  qed
qed

lemma closed_after_subscribe:
  "socket_close (snd (subscribe (new_client True (Some 1)) ''newHeads'' (JObj [])
     \<lparr> socket = Opens, handle = ''sub_a'', server = Result (Some (JStr ''0xA'')) \<rparr>))
   = \<lparr> wsManager = Some \<lparr> connection = Some CLOSED, earlier = [], reconnectAttempts = 1,
            maxReconnectAttempts = 5, reconnectDelay = 1000, heartbeatInterval = True,
            isConnecting = False, messageListeners = [ClientListener], socketsOpened = 1,
            sent = [\<lparr> p_id = 1, p_method = ''eth_subscribe'',
                      p_params = [JStr ''newHeads'', JObj []] \<rparr>],
            timers = [1000], emitted = [] \<rparr>,
        subscriptions = [(''sub_a'', \<lparr> s_id = Some (JStr ''0xA''), s_eventType = ''newHeads'',
                           s_params = JObj [], s_callback = NoOp \<rparr>)],
        requestId = 2, megaethMaxSubscriptions = Some 1, issued = [1], httpPosts = [],
        settled = [(1, Inr ''sub_a'')], delivered = [] \<rparr>"
  by (simp add: subscribed_once socket_close_def socket_defs handleReconnection_cases)

theorem unsubscribe_send_throws_witness:
  "fst (unsubscribe (socket_close
          (snd (subscribe (new_client True (Some 1)) ''newHeads'' (JObj [])
                  \<lparr> socket = Opens, handle = ''sub_a'', server = Result (Some (JStr ''0xA'')) \<rparr>)))
        ''sub_a'') = False \<and>
   subscriptions (snd (unsubscribe (socket_close
          (snd (subscribe (new_client True (Some 1)) ''newHeads'' (JObj [])
                  \<lparr> socket = Opens, handle = ''sub_a'', server = Result (Some (JStr ''0xA'')) \<rparr>)))
        ''sub_a''))
     = [(''sub_a'', \<lparr> s_id = Some (JStr ''0xA''), s_eventType = ''newHeads'',
                       s_params = JObj [], s_callback = NoOp \<rparr>)] \<and>
   fst (unsubscribe
          (snd (subscribe (new_client True (Some 1)) ''newHeads'' (JObj [])
                  \<lparr> socket = Opens, handle = ''sub_a'', server = Result (Some (JStr ''0xA'')) \<rparr>))
        ''sub_a'') = True"
proof -
  let ?o = "snd (subscribe (new_client True (Some 1)) ''newHeads'' (JObj [])
                  \<lparr> socket = Opens, handle = ''sub_a'', server = Result (Some (JStr ''0xA'')) \<rparr>)"
  let ?c = "socket_close ?o"
  let ?s = "\<lparr> s_id = Some (JStr ''0xA''), s_eventType = ''newHeads'',
              s_params = JObj [], s_callback = NoOp \<rparr>"
  let ?ws = "\<lparr> connection = Some CLOSED, earlier = [], reconnectAttempts = 1,
            maxReconnectAttempts = 5, reconnectDelay = 1000, heartbeatInterval = True,
            isConnecting = False, messageListeners = [ClientListener], socketsOpened = 1,
            sent = [\<lparr> p_id = 1, p_method = ''eth_subscribe'',
                      p_params = [JStr ''newHeads'', JObj []] \<rparr>],
            timers = [1000], emitted = [] \<rparr>"
  have n: "map_of (subscriptions ?c) ''sub_a'' = Some ?s \<and> \<not> is_open ?ws"
    by (simp add: closed_after_subscribe is_open_def)
  from unsubscribe_send_throws [of ?c "''sub_a''" ?s ?ws
      "\<lparr> p_id = requestId ?c, p_method = ''eth_unsubscribe'', p_params = [wire (s_id ?s)] \<rparr>"] n
  have t: "send ?ws \<lparr> p_id = requestId ?c, p_method = ''eth_unsubscribe'',
                       p_params = [wire (s_id ?s)] \<rparr> = None"
    by blast
  have k: "map_of (subscriptions ?c) ''sub_a'' = Some ?s \<and> wsManager ?c = Some ?ws"
    by (simp add: closed_after_subscribe)
  from unsubscribe_send_throws [of ?c "''sub_a''" ?s ?ws] k t
  have a: "fst (unsubscribe ?c ''sub_a'') = False"
    and b: "subscriptions (snd (unsubscribe ?c ''sub_a'')) = subscriptions ?c"
    by blast+
  from b have b': "subscriptions (snd (unsubscribe ?c ''sub_a'')) = [(''sub_a'', ?s)]"
    by (simp add: closed_after_subscribe)
  have g: "map_of (subscriptions ?o) ''sub_a'' = Some ?s \<and>
           map_of (subscriptions (snd (unsubscribe ?o ''sub_a''))) ''sub_a'' \<noteq> Some ?s"
    by (simp add: subscribed_once unsubscribe_def alloc_def send_def is_open_def Let_def)
  from unsubscribe_send_throws [of ?o "''sub_a''" ?s] g
  have d: "fst (unsubscribe ?o ''sub_a'') = True" by blast
  from a b' d show ?thesis by blast
qed

section \<open>Request ids\<close>

lemma hands_out_refl: "hands_out c c"
  by (simp add: hands_out_def)

lemma hands_out_same:
  "requestId c' = requestId c \<Longrightarrow> issued c' = issued c \<Longrightarrow> hands_out c c'"
  by (simp add: hands_out_def ids_increase_def)

lemma hands_out_trans:
  assumes "hands_out a b" and "hands_out b c"
  shows "hands_out a c"
proof -
  from assms have le: "requestId a \<le> requestId b" "requestId b \<le> requestId c"
    by (simp_all add: hands_out_def)
  show ?thesis
    unfolding hands_out_def
  proof (intro conjI impI)
    show "requestId a \<le> requestId c" using le by simp
  next
    assume c: "requestId c < 2 ^ 53" and a: "ids_increase a"
    from c le have "requestId b < 2 ^ 53" by simp
    with assms(1) a have "ids_increase b" by (simp add: hands_out_def)
    with assms(2) c show "ids_increase c" by (simp add: hands_out_def)
  qed
qed

lemma hands_out_alloc: "hands_out c (snd (alloc c))"
  unfolding hands_out_def
proof (intro conjI impI)
  show "requestId c \<le> requestId (snd (alloc c))"
    by (simp add: alloc_def increment_def)
next
  assume b: "requestId (snd (alloc c)) < 2 ^ 53" and i: "ids_increase c"
  from b have s: "increment (requestId c) = Suc (requestId c)"
    by (simp add: alloc_def increment_def split: if_splits)
  from i show "ids_increase (snd (alloc c))"
    by (auto simp: ids_increase_def alloc_def s sorted_wrt_append less_Suc_eq)
qed

text \<open>The same for a state that differs from the allocated one in other fields only.\<close>

lemma hands_out_alloc_like:
  assumes "requestId c' = increment (requestId c)" and "issued c' = issued c @ [requestId c]"
  shows "hands_out c c'"
proof -
  have "hands_out c (snd (alloc c))" by (rule hands_out_alloc)
  moreover have "hands_out (snd (alloc c)) c'"
    using assms by (intro hands_out_same) (simp_all add: alloc_def)
  ultimately show ?thesis by (rule hands_out_trans)
qed

lemma callRPC_hands_out: "hands_out c (snd (callRPC c method params out))"
  by (auto simp: callRPC_def alloc_def Let_def split: sum.splits
        intro: hands_out_refl hands_out_alloc_like)

lemma unsubscribe_hands_out: "hands_out c (snd (unsubscribe c h))"
  by (auto simp: unsubscribe_def alloc_def Let_def split: option.splits
        intro: hands_out_refl hands_out_alloc_like)

lemma connectWebSocket_counter:
  "requestId (snd (connectWebSocket c out)) = requestId c"
  "issued (snd (connectWebSocket c out)) = issued c"
  by (auto simp: connectWebSocket_def split: option.splits prod.splits sum.splits)

lemma subscribe_request_hands_out:
  "hands_out c (snd (subscribe_request c eventType params out h))"
proof (cases "connectWebSocket c out")
  case (Pair r c1)
  then have c1: "requestId c1 = requestId c" "issued c1 = issued c"
    using connectWebSocket_counter [of c out] by simp_all
  show ?thesis
    using Pair c1
    by (auto simp: subscribe_request_def subscribe_send_def alloc_def Let_def
          split: option.splits sum.splits
          intro: hands_out_refl hands_out_alloc_like hands_out_same)
qed

lemma invoke_frame:
  "requestId (invoke cb d c) = requestId c"
  "issued (invoke cb d c) = issued c"
  "wsManager (invoke cb d c) = wsManager c"
  "megaethMaxSubscriptions (invoke cb d c) = megaethMaxSubscriptions c"
  "subscriptions (invoke cb d c) = subscriptions c"
  "httpPosts (invoke cb d c) = httpPosts c"
  "settled (invoke cb d c) = settled c"
  by (simp_all add: invoke_def split: callback.splits)

lemma handleWebSocketMessage_frame:
  assumes "handleWebSocketMessage c m = Some c'"
  shows "requestId c' = requestId c" and "issued c' = issued c"
    and "wsManager c' = wsManager c"
    and "megaethMaxSubscriptions c' = megaethMaxSubscriptions c"
    and "subscriptions c' = subscriptions c"
    and "httpPosts c' = httpPosts c"
    and "settled c' = settled c"
  using assms
  by (auto simp: handleWebSocketMessage_def invoke_frame split: if_splits option.splits)

lemma messageHandler_frame:
  "requestId (messageHandler h m c) = requestId c"
  "issued (messageHandler h m c) = issued c"
  "wsManager (messageHandler h m c) = wsManager c"
  "megaethMaxSubscriptions (messageHandler h m c) = megaethMaxSubscriptions c"
  "httpPosts (messageHandler h m c) = httpPosts c"
  "delivered (messageHandler h m c) = delivered c"
  by (simp_all add: messageHandler_def settle_def split: option.splits)

lemma emit_listeners_frame:
  "emit_listeners m ls c = (ls', c') \<Longrightarrow>
   requestId c' = requestId c \<and> issued c' = issued c \<and> wsManager c' = wsManager c \<and>
   megaethMaxSubscriptions c' = megaethMaxSubscriptions c \<and> httpPosts c' = httpPosts c"
proof (induction m ls c arbitrary: ls' c' rule: emit_listeners.induct)
  case (1 m c)
  then show ?case by simp
next
  case (2 m rest c)
  show ?case
  proof (cases "handleWebSocketMessage c m")
    case None
    with 2(2) show ?thesis by simp
  next
    case (Some c1)
    obtain r c2 where e: "emit_listeners m rest c1 = (r, c2)" by (cases "emit_listeners m rest c1")
    from 2(2) Some e have "c' = c2" by simp
    with 2(1) [OF Some e] handleWebSocketMessage_frame [OF Some] show ?thesis by simp
  qed
next
  case (3 m h c)
  then show ?case by (auto simp: messageHandler_frame split: if_splits)
next
  case (4 m h l rest c)
  show ?case
  proof (cases "correlates m h")
    case True
    obtain r c2 where e: "emit_listeners m rest (messageHandler h m c) = (r, c2)"
      by (cases "emit_listeners m rest (messageHandler h m c)")
    from 4(3) True e have "c' = c2" by simp
    with 4(1) [OF True e] show ?thesis by (simp add: messageHandler_frame)
  next
    case False
    obtain r c2 where e: "emit_listeners m (l # rest) c = (r, c2)"
      by (cases "emit_listeners m (l # rest) c")
    from 4(3) False e have "c' = c2" by simp
    with 4(2) [OF False e] show ?thesis by simp
  qed
qed

lemma emit_message_frame:
  "requestId (emit_message c m) = requestId c"
  "issued (emit_message c m) = issued c"
  "megaethMaxSubscriptions (emit_message c m) = megaethMaxSubscriptions c"
  "httpPosts (emit_message c m) = httpPosts c"
  by (auto simp: emit_message_def split: option.splits prod.splits dest: emit_listeners_frame)

lemma subscription_timeout_frame:
  "requestId (subscription_timeout c rid) = requestId c"
  "issued (subscription_timeout c rid) = issued c"
  "megaethMaxSubscriptions (subscription_timeout c rid) = megaethMaxSubscriptions c"
  "subscriptions (subscription_timeout c rid) = subscriptions c"
  "httpPosts (subscription_timeout c rid) = httpPosts c"
  "delivered (subscription_timeout c rid) = delivered c"
  by (simp_all add: subscription_timeout_def split: option.splits)

lemma setSubscriptionCallback_frame:
  "requestId (setSubscriptionCallback c h cb) = requestId c"
  "issued (setSubscriptionCallback c h cb) = issued c"
  "megaethMaxSubscriptions (setSubscriptionCallback c h cb) = megaethMaxSubscriptions c"
  "wsManager (setSubscriptionCallback c h cb) = wsManager c"
  by (simp_all add: setSubscriptionCallback_def split: option.splits)

lemma socket_close_frame:
  "requestId (socket_close c) = requestId c"
  "issued (socket_close c) = issued c"
  "megaethMaxSubscriptions (socket_close c) = megaethMaxSubscriptions c"
  "subscriptions (socket_close c) = subscriptions c"
  by (simp_all add: socket_close_def)

text \<open>The pieces that touch the manager only: the events of the sockets and \<open>connect()\<close>.\<close>

lemma manager_piece_hands_out: "hands_out c (c\<lparr> wsManager := w \<rparr>)"
  by (simp add: hands_out_same)

lemma subscribe_hands_out: "hands_out c (snd (subscribe c eventType params env))"
proof (cases "subscribe_request c eventType params (socket env) (handle env)")
  case (Pair r c')
  then have h: "hands_out c c'"
    using subscribe_request_hands_out [of c eventType params "socket env" "handle env"] by simp
  show ?thesis
  proof (cases r)
    case (Inl x)
    with Pair h show ?thesis by (simp add: subscribe_def)
  next
    case (Inr rid)
    have "hands_out c' (snd (subscribe c eventType params env))"
      using Pair Inr
      by (intro hands_out_same)
         (simp_all add: subscribe_def Let_def emit_message_frame subscription_timeout_frame
            split: reply.splits)
    with h show ?thesis by (rule hands_out_trans)
  qed
qed

lemma resubscribe_each_hands_out: "hands_out c (resubscribe_each c entries i env)"
proof (induction c entries i env rule: resubscribe_each.induct)
  case (1 c i env)
  then show ?case by (simp add: hands_out_refl)
next
  case (2 c localId s rest i env)
  have "hands_out c (snd (subscribe c (s_eventType s) (s_params s) (env i)))"
    by (rule subscribe_hands_out)
  with 2 show ?case by (auto intro: hands_out_trans)
qed

lemma reconnect_timer_hands_out: "hands_out c (reconnect_timer c out env)"
proof (cases "wsManager c")
  case None
  then show ?thesis by (simp add: reconnect_timer_def hands_out_refl)
next
  case (Some ws)
  show ?thesis
  proof (cases "connect_await ws out")
    case (Pair r ws')
    show ?thesis
    proof (cases r)
      case (Inl e)
      with Some Pair show ?thesis
        by (simp add: reconnect_timer_def hands_out_same)
    next
      case (Inr u)
      let ?c1 = "c\<lparr> wsManager := Some (ws'\<lparr> emitted := emitted ws' @ [''reconnected''] \<rparr>),
                     subscriptions := [] \<rparr>"
      have "hands_out c ?c1" by (simp add: hands_out_same)
      moreover have "hands_out ?c1 (resubscribe_each ?c1 (subscriptions c) 0 env)"
        by (rule resubscribe_each_hands_out)
      ultimately have "hands_out c (resubscribe_each ?c1 (subscriptions c) 0 env)"
        by (rule hands_out_trans)
      with Some Pair Inr show ?thesis
        by (simp add: reconnect_timer_def resubscribeAll_def Let_def)
    qed
  qed
qed

lemma subscribe_begin_hands_out: "hands_out c (snd (subscribe_begin c))"
  by (intro hands_out_same)
     (simp_all add: subscribe_begin_def split: option.splits prod.splits)

lemma socket_attempt_hands_out: "hands_out c (socket_attempt c out)"
  by (simp add: socket_attempt_def manager_piece_hands_out)

lemma subscribe_send_hands_out:
  "hands_out c (snd (subscribe_send c eventType params h))"
  by (intro hands_out_alloc_like)
     (simp_all add: subscribe_send_def alloc_def Let_def split: option.splits)

lemma step_hands_out: "hands_out c (step c op)"
  by (cases op)
     (simp_all add: callRPC_hands_out subscribe_request_hands_out subscribe_hands_out
        unsubscribe_hands_out reconnect_timer_hands_out subscribe_begin_hands_out
        socket_attempt_hands_out subscribe_send_hands_out
        hands_out_same emit_message_frame subscription_timeout_frame
        setSubscriptionCallback_frame socket_close_frame
        earlier_socket_close_def earlier_socket_attempt_def connect_call_def)

lemma run_hands_out: "hands_out c (run c ops)"
  unfolding run_def
proof (induction ops arbitrary: c)
  case Nil
  then show ?case by (simp add: hands_out_refl)
next
  case (Cons op ops)
  have "hands_out c (step c op)" by (rule step_hands_out)
  moreover have "hands_out (step c op) (foldl step (step c op) ops)" by (rule Cons.IH)
  ultimately show ?case by (auto intro: hands_out_trans)
qed

lemma ids_increase_new_client: "ids_increase (new_client wsUrl maxSubs)"
  by (simp add: ids_increase_def new_client_def)

lemma callRPC_frame:
  "(snd (callRPC c method params out))
     \<lparr> requestId := requestId c, issued := issued c, httpPosts := httpPosts c \<rparr> = c"
  by (simp add: callRPC_def alloc_def Let_def split: sum.splits)

lemma unsubscribe_frame:
  "(snd (unsubscribe c h))
     \<lparr> requestId := requestId c, issued := issued c, subscriptions := subscriptions c,
       wsManager := wsManager c \<rparr> = c \<and>
   map_option (\<lambda>ws. ws\<lparr> sent := [] \<rparr>) (wsManager (snd (unsubscribe c h)))
     = map_option (\<lambda>ws. ws\<lparr> sent := [] \<rparr>) (wsManager c)"
  by (auto simp: unsubscribe_def alloc_def send_def Let_def split: option.splits)

lemma connectWebSocket_frame:
  "\<exists>w. snd (connectWebSocket c out) = c\<lparr> wsManager := w \<rparr>"
proof (cases "wsManager c")
  case None
  then have "snd (connectWebSocket c out) = c\<lparr> wsManager := None \<rparr>"
    by (simp add: connectWebSocket_def)
  then show ?thesis by blast
next
  case (Some ws)
  then show ?thesis
    by (cases "connect_await ws out") (auto simp: connectWebSocket_def split: sum.splits)
qed

lemma subscribe_request_frame:
  "(snd (subscribe_request c eventType params out h))
     \<lparr> requestId := requestId c, issued := issued c, wsManager := wsManager c \<rparr> = c"
proof -
  obtain w where w: "snd (connectWebSocket c out) = c\<lparr> wsManager := w \<rparr>"
    using connectWebSocket_frame by blast
  obtain r c1 where p: "connectWebSocket c out = (r, c1)" by (cases "connectWebSocket c out")
  with w have c1: "c1 = c\<lparr> wsManager := w \<rparr>" by simp
  show ?thesis
    by (simp add: subscribe_request_def subscribe_send_def p c1 alloc_def Let_def
          split: option.splits sum.splits)
qed

lemma tracks_refl: "tracks c c"
  by (simp add: tracks_def hands_out_refl)

lemma tracks_trans:
  assumes "tracks a b" and "tracks b c"
  shows "tracks a c"
  unfolding tracks_def
proof (intro conjI impI)
  from assms show h: "hands_out a c" by (auto simp: tracks_def intro: hands_out_trans)
  assume c: "requestId c < 2 ^ 53" and i: "ids_increase a" and u: "ids_used a"
  from assms(2) have "requestId b \<le> requestId c" by (simp add: tracks_def hands_out_def)
  with c have b: "requestId b < 2 ^ 53" by simp
  with assms(1) i u have "ids_increase b" and "ids_used b"
    by (simp_all add: tracks_def hands_out_def)
  with assms(2) c show "ids_used c" by (simp add: tracks_def)
qed

lemma tracks_same:
  assumes "requestId c' = requestId c" and "issued c' = issued c"
    and "map p_id (requests c') = map p_id (requests c)"
  shows "tracks c c'"
  using assms by (simp add: tracks_def hands_out_same ids_used_def)

text \<open>One id handed out, and at most one request, which carries it.\<close>

lemma tracks_alloc:
  assumes r: "requestId c' = increment (requestId c)" and i: "issued c' = issued c @ [requestId c]"
    and q: "set (map p_id (requests c')) \<subseteq> insert (requestId c) (set (map p_id (requests c)))"
    and d: "distinct (map p_id (requests c)) \<Longrightarrow> requestId c \<notin> set (map p_id (requests c))
            \<Longrightarrow> distinct (map p_id (requests c'))"
  shows "tracks c c'"
  unfolding tracks_def
proof (intro conjI impI)
  show "hands_out c c'" using r i by (rule hands_out_alloc_like)
  assume "requestId c' < 2 ^ 53" and inc: "ids_increase c" and u: "ids_used c"
  from inc u have fresh: "requestId c \<notin> set (map p_id (requests c))"
    by (auto simp: ids_increase_def ids_used_def)
  from u have "distinct (map p_id (requests c))" by (simp add: ids_used_def)
  from d [OF this fresh] have "distinct (map p_id (requests c'))" .
  moreover from q u i have "set (map p_id (requests c')) \<subseteq> set (issued c')"
    by (auto simp: ids_used_def)
  ultimately show "ids_used c'" by (simp add: ids_used_def)
qed

lemma callRPC_tracks: "tracks c (snd (callRPC c name params out))"
proof (cases "name = []")
  case True
  then show ?thesis by (simp add: callRPC_def tracks_refl)
next
  case False
  then show ?thesis
    by (intro tracks_alloc)
       (auto simp: callRPC_def alloc_def requests_def Let_def split: sum.splits option.splits)
qed

lemma unsubscribe_tracks: "tracks c (snd (unsubscribe c h))"
proof (cases "map_of (subscriptions c) h")
  case None
  then show ?thesis by (simp add: unsubscribe_def tracks_refl)
next
  case (Some s)
  show ?thesis
  proof (cases "wsManager c")
    case None
    with Some show ?thesis by (simp add: unsubscribe_def tracks_refl)
  next
    case ws: (Some ws)
    with Some show ?thesis
      by (intro tracks_alloc)
         (auto simp: unsubscribe_def alloc_def send_def requests_def Let_def image_iff
            split: option.splits if_splits)
  qed
qed

lemma connect_await_sent: "sent (snd (connect_await ws out)) = sent ws"
  by (simp add: connect_await_def connect_def socket_event_frame
        split: socket_outcome.splits poll.splits)

lemma subscribe_request_tracks:
  "tracks c (snd (subscribe_request c eventType params out h))"
proof (cases "wsManager c")
  case None
  then show ?thesis by (simp add: subscribe_request_def tracks_refl)
next
  case (Some ws0)
  show ?thesis
  proof (cases "int (length (subscriptions c)) \<ge> maxSubscriptions c")
    case True
    with Some show ?thesis by (simp add: subscribe_request_def tracks_refl)
  next
    case False
    obtain r ws1 where p: "connect_await ws0 out = (r, ws1)" by (cases "connect_await ws0 out")
    with connect_await_sent [of ws0 out] have l: "sent ws1 = sent ws0" by simp
    show ?thesis
    proof (cases r)
      case (Inl e)
      with Some False p l show ?thesis
        by (intro tracks_same)
           (simp_all add: subscribe_request_def connectWebSocket_def requests_def)
    next
      case (Inr u)
      with Some False p l show ?thesis
        by (intro tracks_alloc)
           (auto simp: subscribe_request_def subscribe_send_def connectWebSocket_def alloc_def send_def
              requests_def Let_def image_iff split: if_splits)
    qed
  qed
qed

lemma emit_message_requests: "requests (emit_message c m) = requests c"
proof (cases "wsManager c")
  case None
  then show ?thesis by (simp add: emit_message_def)
next
  case (Some ws)
  obtain ls' c' where e: "emit_listeners m (messageListeners ws) c = (ls', c')"
    by (cases "emit_listeners m (messageListeners ws) c")
  from emit_listeners_frame [OF e] Some e show ?thesis
    by (simp add: emit_message_def requests_def)
qed

lemma subscription_timeout_requests: "requests (subscription_timeout c rid) = requests c"
  by (simp add: subscription_timeout_def requests_def split: option.splits)

lemma setSubscriptionCallback_requests: "requests (setSubscriptionCallback c h cb) = requests c"
  by (simp add: setSubscriptionCallback_def requests_def split: option.splits)

lemma manager_piece_tracks:
  assumes "\<And>ws. sent (f ws) = sent ws"
  shows "tracks c (c\<lparr> wsManager := map_option f (wsManager c) \<rparr>)"
  by (intro tracks_same) (cases "wsManager c"; simp add: requests_def assms)+

lemma socket_close_requests: "requests (socket_close c) = requests c"
  by (cases "wsManager c")
     (simp_all add: socket_close_def requests_def socket_closes_frame)

lemma subscribe_tracks: "tracks c (snd (subscribe c eventType params env))"
proof (cases "subscribe_request c eventType params (socket env) (handle env)")
  case (Pair r c')
  then have h: "tracks c c'"
    using subscribe_request_tracks [of c eventType params "socket env" "handle env"] by simp
  show ?thesis
  proof (cases r)
    case (Inl x)
    with Pair h show ?thesis by (simp add: subscribe_def)
  next
    case (Inr rid)
    have "tracks c' (snd (subscribe c eventType params env))"
      using Pair Inr
      by (intro tracks_same)
         (simp_all add: subscribe_def Let_def emit_message_frame subscription_timeout_frame
            emit_message_requests subscription_timeout_requests split: reply.splits)
    with h show ?thesis by (rule tracks_trans)
  qed
qed

lemma resubscribe_each_tracks: "tracks c (resubscribe_each c entries i env)"
proof (induction c entries i env rule: resubscribe_each.induct)
  case (1 c i env)
  then show ?case by (simp add: tracks_refl)
next
  case (2 c localId s rest i env)
  have "tracks c (snd (subscribe c (s_eventType s) (s_params s) (env i)))"
    by (rule subscribe_tracks)
  with 2 show ?case by (auto intro: tracks_trans)
qed

lemma reconnect_timer_tracks: "tracks c (reconnect_timer c out env)"
proof (cases "wsManager c")
  case None
  then show ?thesis by (simp add: reconnect_timer_def tracks_refl)
next
  case (Some ws)
  obtain r ws' where p: "connect_await ws out = (r, ws')" by (cases "connect_await ws out")
  with connect_await_sent [of ws out] have l: "sent ws' = sent ws" by simp
  show ?thesis
  proof (cases r)
    case (Inl e)
    with Some p l show ?thesis
      by (intro tracks_same) (simp_all add: reconnect_timer_def requests_def)
  next
    case (Inr u)
    let ?c1 = "c\<lparr> wsManager := Some (ws'\<lparr> emitted := emitted ws' @ [''reconnected''] \<rparr>),
                   subscriptions := [] \<rparr>"
    have "tracks c ?c1"
      using Some l by (intro tracks_same) (simp_all add: requests_def)
    moreover have "tracks ?c1 (resubscribe_each ?c1 (subscriptions c) 0 env)"
      by (rule resubscribe_each_tracks)
    ultimately have "tracks c (resubscribe_each ?c1 (subscriptions c) 0 env)"
      by (rule tracks_trans)
    with Some p Inr show ?thesis
      by (simp add: reconnect_timer_def resubscribeAll_def Let_def)
  qed
qed

lemma subscribe_begin_tracks: "tracks c (snd (subscribe_begin c))"
  by (intro tracks_same)
     (auto simp: subscribe_begin_def connect_def requests_def split: option.splits prod.splits)

lemma socket_attempt_tracks: "tracks c (socket_attempt c out)"
  unfolding socket_attempt_def by (rule manager_piece_tracks) (rule socket_event_frame)

lemma earlier_socket_attempt_tracks: "tracks c (earlier_socket_attempt c k out)"
  unfolding earlier_socket_attempt_def by (rule manager_piece_tracks) (rule socket_event_frame)

lemma earlier_socket_close_tracks: "tracks c (earlier_socket_close c k)"
  unfolding earlier_socket_close_def by (rule manager_piece_tracks) (rule socket_closes_frame)

lemma connect_call_tracks: "tracks c (connect_call c)"
  unfolding connect_call_def by (rule manager_piece_tracks) (rule connect_frame)

lemma subscribe_send_tracks: "tracks c (snd (subscribe_send c eventType params h))"
  by (intro tracks_alloc)
     (auto simp: subscribe_send_def alloc_def send_def requests_def Let_def image_iff
        split: option.splits if_splits)

lemma step_tracks: "tracks c (step c op)"
  by (cases op)
     (simp_all add: callRPC_tracks subscribe_request_tracks subscribe_tracks
        unsubscribe_tracks reconnect_timer_tracks subscribe_begin_tracks
        socket_attempt_tracks subscribe_send_tracks earlier_socket_attempt_tracks
        earlier_socket_close_tracks connect_call_tracks
        tracks_same emit_message_frame subscription_timeout_frame
        setSubscriptionCallback_frame socket_close_frame emit_message_requests
        subscription_timeout_requests setSubscriptionCallback_requests socket_close_requests)

lemma run_tracks: "tracks c (run c ops)"
  unfolding run_def
proof (induction ops arbitrary: c)
  case Nil
  then show ?case by (simp add: tracks_refl)
next
  case (Cons op ops)
  have "tracks c (step c op)" by (rule step_tracks)
  moreover have "tracks (step c op) (foldl step (step c op) ops)" by (rule Cons.IH)
  ultimately show ?case by (auto intro: tracks_trans)
qed

lemma ids_used_new_client: "ids_used (new_client wsUrl maxSubs)"
  by (simp add: ids_used_def requests_def new_client_def new_ws_manager_def)

text \<open>
  C8. In every run of a new client, with its pieces in any order, as long as the
  counter is below \<open>2 ^ 53\<close>: the request ids handed out, in the order of their
  allocation, grow strictly, so each is distinct from and greater than every earlier
  one, and all lie below the counter; the requests sent, over HTTP and over the socket,
  carry ids that were handed out, no two of them the same. \<open>callRPC\<close> changes nothing of the client but the
  counter (and the record of ids and of posts); \<open>unsubscribe\<close> nothing but the counter
  and the subscription table, the manager being as before but for the frame sent; a
  subscribe request leaves the table to its response and changes nothing but the
  counter and the connection manager, whose socket it opens when needed and with which
  it registers its handler.
\<close>

theorem request_ids_increase:
  "(requestId (run (new_client wsUrl maxSubs) ops) < 2 ^ 53 \<longrightarrow>
      sorted_wrt (<) (issued (run (new_client wsUrl maxSubs) ops)) \<and>
      distinct (issued (run (new_client wsUrl maxSubs) ops)) \<and>
      (\<forall>i \<in> set (issued (run (new_client wsUrl maxSubs) ops)).
          i < requestId (run (new_client wsUrl maxSubs) ops)) \<and>
      set (map p_id (requests (run (new_client wsUrl maxSubs) ops)))
        \<subseteq> set (issued (run (new_client wsUrl maxSubs) ops)) \<and>
      distinct (map p_id (requests (run (new_client wsUrl maxSubs) ops)))) \<and>
   (snd (callRPC c method params out))
      \<lparr> requestId := requestId c, issued := issued c, httpPosts := httpPosts c \<rparr> = c \<and>
   (snd (unsubscribe c h))
      \<lparr> requestId := requestId c, issued := issued c, subscriptions := subscriptions c,
        wsManager := wsManager c \<rparr> = c \<and>
   map_option (\<lambda>ws. ws\<lparr> sent := [] \<rparr>) (wsManager (snd (unsubscribe c h)))
      = map_option (\<lambda>ws. ws\<lparr> sent := [] \<rparr>) (wsManager c) \<and>
   (snd (subscribe_request c eventType subParams sock h))
      \<lparr> requestId := requestId c, issued := issued c, wsManager := wsManager c \<rparr> = c"
proof (intro conjI impI)
  let ?c = "run (new_client wsUrl maxSubs) ops"
  assume b: "requestId ?c < 2 ^ 53"
  have "hands_out (new_client wsUrl maxSubs) ?c" by (rule run_hands_out)
  with b ids_increase_new_client have i: "ids_increase ?c" by (simp add: hands_out_def)
  then show "sorted_wrt (<) (issued ?c)" by (simp add: ids_increase_def)
  then show "distinct (issued ?c)" by (simp add: strict_sorted_iff)
  from i show "\<forall>i \<in> set (issued ?c). i < requestId ?c" by (simp add: ids_increase_def)
  have "tracks (new_client wsUrl maxSubs) ?c" by (rule run_tracks)
  with b ids_increase_new_client ids_used_new_client have u: "ids_used ?c"
    by (simp add: tracks_def)
  then show "set (map p_id (requests ?c)) \<subseteq> set (issued ?c)" by (simp add: ids_used_def)
  from u show "distinct (map p_id (requests ?c))" by (simp add: ids_used_def)
qed (simp_all add: callRPC_frame unsubscribe_frame subscribe_request_frame)

lemma run_example:
  "requestId (run (new_client True (Some 3))
     [SubscribeBegin,
      CallRPC ''eth_chainId'' [] (Response \<lparr> r_error = None, r_result = Some (JStr ''0x539'') \<rparr>),
      SocketAttempt Opens,
      SubscribeSend ''newHeads'' (JObj []) ''sub_a'',
      CallRPC ''eth_blockNumber'' [] (Failure (plain ''down'')),
      Message (reply_message 2 (Result (Some (JStr ''0xA'')))),
      Unsubscribe ''sub_a'']) = 5 \<and>
   issued (run (new_client True (Some 3))
     [SubscribeBegin,
      CallRPC ''eth_chainId'' [] (Response \<lparr> r_error = None, r_result = Some (JStr ''0x539'') \<rparr>),
      SocketAttempt Opens,
      SubscribeSend ''newHeads'' (JObj []) ''sub_a'',
      CallRPC ''eth_blockNumber'' [] (Failure (plain ''down'')),
      Message (reply_message 2 (Result (Some (JStr ''0xA'')))),
      Unsubscribe ''sub_a'']) = [1, 2, 3, 4]"
  by (simp add: run_def client_defs callRPC_def callRPC_try_def callRPC_catch_def
        unsubscribe_def subscribe_begin_def socket_attempt_def plain_def Let_def)

theorem request_ids_increase_witness:
  "requestId (run (new_client True (Some 3))
     [SubscribeBegin,
      CallRPC ''eth_chainId'' [] (Response \<lparr> r_error = None, r_result = Some (JStr ''0x539'') \<rparr>),
      SocketAttempt Opens,
      SubscribeSend ''newHeads'' (JObj []) ''sub_a'',
      CallRPC ''eth_blockNumber'' [] (Failure (plain ''down'')),
      Message (reply_message 2 (Result (Some (JStr ''0xA'')))),
      Unsubscribe ''sub_a'']) < 2 ^ 53 \<and>
   issued (run (new_client True (Some 3))
     [SubscribeBegin,
      CallRPC ''eth_chainId'' [] (Response \<lparr> r_error = None, r_result = Some (JStr ''0x539'') \<rparr>),
      SocketAttempt Opens,
      SubscribeSend ''newHeads'' (JObj []) ''sub_a'',
      CallRPC ''eth_blockNumber'' [] (Failure (plain ''down'')),
      Message (reply_message 2 (Result (Some (JStr ''0xA'')))),
      Unsubscribe ''sub_a'']) = [1, 2, 3, 4] \<and>
   sorted_wrt (<) (issued (run (new_client True (Some 3))
     [SubscribeBegin,
      CallRPC ''eth_chainId'' [] (Response \<lparr> r_error = None, r_result = Some (JStr ''0x539'') \<rparr>),
      SocketAttempt Opens,
      SubscribeSend ''newHeads'' (JObj []) ''sub_a'',
      CallRPC ''eth_blockNumber'' [] (Failure (plain ''down'')),
      Message (reply_message 2 (Result (Some (JStr ''0xA'')))),
      Unsubscribe ''sub_a'']))"
proof -
  let ?ops = "[SubscribeBegin,
      CallRPC ''eth_chainId'' [] (Response \<lparr> r_error = None, r_result = Some (JStr ''0x539'') \<rparr>),
      SocketAttempt Opens,
      SubscribeSend ''newHeads'' (JObj []) ''sub_a'',
      CallRPC ''eth_blockNumber'' [] (Failure (plain ''down'')),
      Message (reply_message 2 (Result (Some (JStr ''0xA'')))),
      Unsubscribe ''sub_a'']"
  have b: "requestId (run (new_client True (Some 3)) ?ops) < 2 ^ 53"
    using run_example by simp
  from request_ids_increase [of True "Some 3" ?ops] b
  have "sorted_wrt (<) (issued (run (new_client True (Some 3)) ?ops))" by blast
  with b run_example show ?thesis by blast
qed

text \<open>A subscribe request on a new client opens the socket and registers its handler with
  the manager.\<close>

theorem subscribe_request_changes_manager_counterexample:
  "map_option connection (wsManager (new_client True None)) = Some None \<and>
   map_option messageListeners (wsManager (new_client True None)) = Some [ClientListener] \<and>
   map_option connection
     (wsManager (snd (subscribe_request (new_client True None) ''newHeads'' (JObj []) Opens ''sub_a'')))
     = Some (Some OPEN) \<and>
   map_option messageListeners
     (wsManager (snd (subscribe_request (new_client True None) ''newHeads'' (JObj []) Opens ''sub_a'')))
     = Some [ClientListener,
             MessageHandler \<lparr> h_id = 1, h_subscriptionId = ''sub_a'', h_eventType = ''newHeads'',
                              h_params = JObj [], h_settled = False \<rparr>]"
  by (simp add: client_defs Let_def)

section \<open>The limit of subscriptions\<close>

lemma connect_await_listeners:
  "messageListeners (snd (connect_await ws out)) = messageListeners ws"
  by (simp add: connect_await_def connect_def socket_event_frame
        split: socket_outcome.splits poll.splits)

lemma connectWebSocket_listeners:
  "listeners (snd (connectWebSocket c out)) = listeners c"
proof (cases "wsManager c")
  case None
  then show ?thesis by (simp add: connectWebSocket_def)
next
  case (Some ws)
  obtain r ws' where p: "connect_await ws out = (r, ws')" by (cases "connect_await ws out")
  with connect_await_listeners [of ws out] have "messageListeners ws' = messageListeners ws"
    by simp
  with Some p show ?thesis
    by (simp add: connectWebSocket_def listeners_def split: sum.splits)
qed

lemma correlates_reply: "correlates (reply_message rid r) g \<longleftrightarrow> h_id g = rid"
  by (auto simp: correlates_def reply_message_def)

lemma correlates_no_id: "m_id m = None \<Longrightarrow> \<not> correlates m g"
  by (simp add: correlates_def)

lemma emit_listeners_skip:
  assumes "\<not> correlates m g"
  shows "emit_listeners m (MessageHandler g # rest) c =
           (case emit_listeners m rest c of (r, c') \<Rightarrow> (MessageHandler g # r, c'))"
  using assms by (cases rest) simp_all

text \<open>No handler but the last can correlate, and the message is no notification.\<close>

lemma emit_listeners_last:
  assumes "\<forall>g. MessageHandler g \<in> set ls \<longrightarrow> \<not> correlates m g"
    and "m_method m \<noteq> Some ''eth_subscription''"
  shows "emit_listeners m (ls @ [MessageHandler h]) c =
           (if correlates m h then (ls, messageHandler h m c) else (ls @ [MessageHandler h], c))"
  using assms(1)
proof (induction ls)
  case Nil
  then show ?case by simp
next
  case (Cons l ls)
  then have ih: "emit_listeners m (ls @ [MessageHandler h]) c =
           (if correlates m h then (ls, messageHandler h m c) else (ls @ [MessageHandler h], c))"
    by simp
  show ?case
  proof (cases l)
    case ClientListener
    from assms(2) have "handleWebSocketMessage c m = Some c"
      by (simp add: handleWebSocketMessage_def)
    with ClientListener ih show ?thesis by simp
  next
    case (MessageHandler g)
    with Cons.prems have "\<not> correlates m g" by simp
    with MessageHandler ih show ?thesis by (simp add: emit_listeners_skip)
  qed
qed

text \<open>A message without an id correlates with no handler.\<close>

lemma emit_listeners_no_id:
  assumes "m_id m = None"
  shows "emit_listeners m ls c = (ls', c') \<Longrightarrow> ls' = ls \<and> subscriptions c' = subscriptions c"
proof (induction ls arbitrary: c ls' c')
  case Nil
  then show ?case by simp
next
  case (Cons l ls)
  show ?case
  proof (cases l)
    case ClientListener
    show ?thesis
    proof (cases "handleWebSocketMessage c m")
      case None
      with ClientListener Cons.prems show ?thesis by simp
    next
      case (Some c1)
      obtain r c2 where e: "emit_listeners m ls c1 = (r, c2)" by (cases "emit_listeners m ls c1")
      from Cons.IH [OF e] handleWebSocketMessage_frame(5) [OF Some]
      have "r = ls \<and> subscriptions c2 = subscriptions c" by simp
      with ClientListener Some e Cons.prems show ?thesis by auto
    qed
  next
    case (MessageHandler g)
    obtain r c2 where e: "emit_listeners m ls c = (r, c2)" by (cases "emit_listeners m ls c")
    from Cons.IH [OF e] have "r = ls \<and> subscriptions c2 = subscriptions c" .
    with MessageHandler e Cons.prems assms show ?thesis
      by (auto simp: emit_listeners_skip correlates_no_id)
  qed
qed

lemma behind_mono: "behind n l \<Longrightarrow> n \<le> k \<Longrightarrow> behind k l"
  by (cases l) simp_all

lemma list_all_behind_mono: "list_all (behind n) ls \<Longrightarrow> n \<le> k \<Longrightarrow> list_all (behind k) ls"
  by (induction ls) (auto intro: behind_mono)

text \<open>The three ways a subscribe request ends.\<close>

lemma subscribe_request_cases:
  obtains
    (failed) x c' where "subscribe_request c eventType params out h = (Inl x, c')"
      and "subscriptions c' = subscriptions c" and "listeners c' = listeners c"
      and "requestId c' = requestId c"
      and "megaethMaxSubscriptions c' = megaethMaxSubscriptions c"
  | (sent) c' where "subscribe_request c eventType params out h = (Inr (requestId c), c')"
      and "subscriptions c' = subscriptions c"
      and "listeners c' = listeners c @
             [MessageHandler \<lparr> h_id = requestId c, h_subscriptionId = h,
                h_eventType = eventType, h_params = params, h_settled = False \<rparr>]"
      and "requestId c' = increment (requestId c)"
      and "megaethMaxSubscriptions c' = megaethMaxSubscriptions c"
      and "int (length (subscriptions c)) < maxSubscriptions c"
      and "settled c' = settled c"
  | (thrown) x c' where "subscribe_request c eventType params out h = (Inl x, c')"
      and "subscriptions c' = subscriptions c"
      and "listeners c' = listeners c @
             [MessageHandler \<lparr> h_id = requestId c, h_subscriptionId = h,
                h_eventType = eventType, h_params = params, h_settled = True \<rparr>]"
      and "requestId c' = increment (requestId c)"
      and "megaethMaxSubscriptions c' = megaethMaxSubscriptions c"
proof (cases "wsManager c")
  case None
  then have "subscribe_request c eventType params out h
      = (Inl (Error (plain ''WebSocket not configured'')), c)"
    by (simp add: subscribe_request_def)
  then show ?thesis by (rule failed) simp_all
next
  case (Some ws0)
  show ?thesis
  proof (cases "int (length (subscriptions c)) \<ge> maxSubscriptions c")
    case True
    with Some have "subscribe_request c eventType params out h
      = (Inl (MegaETH (SubscriptionLimitError (maxSubscriptions c))), c)"
      by (simp add: subscribe_request_def)
    then show ?thesis by (rule failed) simp_all
  next
    case False
    obtain r ws1 where p: "connect_await ws0 out = (r, ws1)" by (cases "connect_await ws0 out")
    with connect_await_listeners [of ws0 out]
    have l: "messageListeners ws1 = messageListeners ws0" by simp
    show ?thesis
    proof (cases r)
      case (Inl e)
      with Some False p have "subscribe_request c eventType params out h
          = (Inl (Error e), c\<lparr> wsManager := Some ws1 \<rparr>)"
        by (simp add: subscribe_request_def connectWebSocket_def)
      then show ?thesis by (rule failed) (use Some l in \<open>simp_all add: listeners_def\<close>)
    next
      case (Inr u)
      let ?h = "\<lparr> h_id = requestId c, h_subscriptionId = h,
                h_eventType = eventType, h_params = params, h_settled = False \<rparr>"
      show ?thesis
      proof (cases "is_open ws1")
        case True
        with Some False p Inr have "subscribe_request c eventType params out h
          = (Inr (requestId c),
             c\<lparr> wsManager := Some ws1, requestId := increment (requestId c),
                issued := issued c @ [requestId c],
                wsManager := Some (ws1\<lparr> messageListeners := messageListeners ws1 @ [MessageHandler ?h],
                     sent := sent ws1 @ [\<lparr> p_id = requestId c, p_method = ''eth_subscribe'',
                                 p_params = [JStr eventType, params] \<rparr>] \<rparr>) \<rparr>)"
          by (simp add: subscribe_request_def subscribe_send_def connectWebSocket_def alloc_def send_def
                is_open_def Let_def)
        then show ?thesis by (rule sent) (use Some l False in \<open>simp_all add: listeners_def\<close>)
      next
        case closed: False
        with Some False p Inr have "subscribe_request c eventType params out h
          = (Inl (Error (plain ''WebSocket connection not open'')),
             c\<lparr> wsManager := Some ws1, requestId := increment (requestId c),
                issued := issued c @ [requestId c],
                wsManager := Some (ws1\<lparr> messageListeners := messageListeners ws1
                    @ [MessageHandler (?h\<lparr> h_settled := True \<rparr>)] \<rparr>) \<rparr>)"
          by (simp add: subscribe_request_def subscribe_send_def connectWebSocket_def alloc_def send_def
                is_open_def Let_def)
        then show ?thesis by (rule thrown) (use Some l in \<open>simp_all add: listeners_def\<close>)
      qed
    qed
  qed
qed

lemma maxSubscriptions_cong:
  "megaethMaxSubscriptions c' = megaethMaxSubscriptions c \<Longrightarrow> maxSubscriptions c' = maxSubscriptions c"
  by (simp add: maxSubscriptions_def)

lemma expire_behind:
  "expire rid ls = Some ls' \<Longrightarrow> list_all (behind n) ls \<Longrightarrow> list_all (behind n) ls'"
proof (induction ls arbitrary: ls')
  case Nil
  then show ?case by simp
next
  case (Cons l ls)
  then show ?case by (cases l) (auto split: if_splits)
qed

lemma subscription_timeout_listeners:
  "list_all (behind n) (listeners c) \<Longrightarrow> list_all (behind n) (listeners (subscription_timeout c rid))"
  by (auto simp: subscription_timeout_def listeners_def split: option.splits dest: expire_behind)

lemma emit_message_known:
  assumes "wsManager c = Some ws" and "emit_listeners m (messageListeners ws) c = (ls', c')"
  shows "listeners (emit_message c m) = ls'"
    and "subscriptions (emit_message c m) = subscriptions c'"
  using assms by (simp_all add: emit_message_def listeners_def)

lemma length_update_le: "length (AList.update k v al) \<le> Suc (length al)"
  by (induction al) auto

lemma length_update_known:
  "map_of al k = Some x \<Longrightarrow> length (AList.update k v al) = length al"
  by (induction al) (auto split: if_splits)

lemma messageHandler_length:
  "length (subscriptions (messageHandler h m c)) \<le> Suc (length (subscriptions c))"
  by (simp add: messageHandler_def settle_def length_update_le split: option.splits)

lemma subscribe_keeps:
  assumes w: "within_limit c" and b: "handlers_behind c"
    and r: "requestId (snd (subscribe c eventType params env)) < 2 ^ 53"
  shows "within_limit (snd (subscribe c eventType params env)) \<and>
         handlers_behind (snd (subscribe c eventType params env))"
proof (cases rule: subscribe_request_cases [of c eventType params "socket env" "handle env"])
  case (failed x c')
  then have "snd (subscribe c eventType params env) = c'" by (simp add: subscribe_def)
  with failed w b maxSubscriptions_cong [OF failed(5)] show ?thesis
    by (simp add: within_limit_def handlers_behind_def)
next
  case (thrown x c')
  then have e: "snd (subscribe c eventType params env) = c'" by (simp add: subscribe_def)
  with r thrown(4) have s: "requestId c' = Suc (requestId c)"
    by (simp add: increment_def split: if_splits)
  from b have "list_all (behind (Suc (requestId c))) (listeners c)"
    unfolding handlers_behind_def by (rule list_all_behind_mono) simp
  with e thrown w s maxSubscriptions_cong [OF thrown(5)] show ?thesis
    by (simp add: within_limit_def handlers_behind_def)
next
  case (sent c')
  let ?rid = "requestId c"
  let ?h = "\<lparr> h_id = ?rid, h_subscriptionId = handle env, h_eventType = eventType,
              h_params = params, h_settled = False \<rparr>"
  let ?c'' = "snd (subscribe c eventType params env)"
  have cfg: "megaethMaxSubscriptions ?c'' = megaethMaxSubscriptions c"
    and rq: "requestId ?c'' = requestId c'"
    using sent(1,5)
    by (simp_all add: subscribe_def Let_def emit_message_frame subscription_timeout_frame
          split: reply.splits)
  from rq r sent(4) have s: "requestId c' = Suc ?rid"
    by (simp add: increment_def split: if_splits)
  have mx: "maxSubscriptions ?c'' = maxSubscriptions c"
    using cfg by (rule maxSubscriptions_cong)
  from b have old: "list_all (behind ?rid) (listeners c)" by (simp add: handlers_behind_def)
  then have old': "list_all (behind (Suc ?rid)) (listeners c)"
    by (rule list_all_behind_mono) simp
  show ?thesis
  proof (cases "server env")
    case NoReply
    with sent(1) have e: "?c'' = subscription_timeout c' ?rid" by (simp add: subscribe_def Let_def)
    have "list_all (behind (Suc ?rid)) (listeners c')"
      using old' by (simp add: sent(3))
    then have "list_all (behind (Suc ?rid)) (listeners (subscription_timeout c' ?rid))"
      by (rule subscription_timeout_listeners)
    with e w sent(2) s mx show ?thesis
      by (simp add: within_limit_def handlers_behind_def subscription_timeout_frame)
  next
    case reply: (Result v)
    let ?m = "reply_message ?rid (server env)"
    from sent(1) reply have e: "?c'' = emit_message c' ?m" by (simp add: subscribe_def Let_def)
    from sent(3) obtain ws where ws: "wsManager c' = Some ws"
      and ls: "messageListeners ws = listeners c @ [MessageHandler ?h]"
      by (cases "wsManager c'") (simp_all add: listeners_def)
    have nc: "\<forall>g. MessageHandler g \<in> set (listeners c) \<longrightarrow> \<not> correlates ?m g"
    proof (intro allI impI)
      fix g assume "MessageHandler g \<in> set (listeners c)"
      with old have "behind ?rid (MessageHandler g)" by (auto simp: list_all_iff)
      then show "\<not> correlates ?m g" by (simp add: correlates_reply)
    qed
    have mm: "m_method ?m \<noteq> Some ''eth_subscription''" by (simp add: reply_message_def)
    have cor: "correlates ?m ?h" by (simp add: correlates_reply)
    have "emit_listeners ?m (messageListeners ws) c' = (listeners c, messageHandler ?h ?m c')"
      unfolding ls using emit_listeners_last [OF nc mm, of ?h c'] cor by simp
    from emit_message_known [OF ws this]
    have l: "listeners (emit_message c' ?m) = listeners c"
      and t: "subscriptions (emit_message c' ?m) = subscriptions (messageHandler ?h ?m c')" .
    from messageHandler_length [of ?h ?m c'] sent(2,6)
    have "int (length (subscriptions (messageHandler ?h ?m c'))) \<le> maxSubscriptions c" by simp
    with e l t old' s mx show ?thesis
      by (simp add: within_limit_def handlers_behind_def emit_message_frame)
  next
    case reply: (ErrorReply err)
    let ?m = "reply_message ?rid (server env)"
    from sent(1) reply have e: "?c'' = emit_message c' ?m" by (simp add: subscribe_def Let_def)
    from sent(3) obtain ws where ws: "wsManager c' = Some ws"
      and ls: "messageListeners ws = listeners c @ [MessageHandler ?h]"
      by (cases "wsManager c'") (simp_all add: listeners_def)
    have nc: "\<forall>g. MessageHandler g \<in> set (listeners c) \<longrightarrow> \<not> correlates ?m g"
    proof (intro allI impI)
      fix g assume "MessageHandler g \<in> set (listeners c)"
      with old have "behind ?rid (MessageHandler g)" by (auto simp: list_all_iff)
      then show "\<not> correlates ?m g" by (simp add: correlates_reply)
    qed
    have mm: "m_method ?m \<noteq> Some ''eth_subscription''" by (simp add: reply_message_def)
    have cor: "correlates ?m ?h" by (simp add: correlates_reply)
    have "emit_listeners ?m (messageListeners ws) c' = (listeners c, messageHandler ?h ?m c')"
      unfolding ls using emit_listeners_last [OF nc mm, of ?h c'] cor by simp
    from emit_message_known [OF ws this]
    have l: "listeners (emit_message c' ?m) = listeners c"
      and t: "subscriptions (emit_message c' ?m) = subscriptions (messageHandler ?h ?m c')" .
    from messageHandler_length [of ?h ?m c'] sent(2,6)
    have "int (length (subscriptions (messageHandler ?h ?m c'))) \<le> maxSubscriptions c" by simp
    with e l t old' s mx show ?thesis
      by (simp add: within_limit_def handlers_behind_def emit_message_frame)
  qed
qed

lemma keeps_if:
  assumes "length (subscriptions c') \<le> length (subscriptions c)"
    and "\<And>n. list_all (behind n) (listeners c) \<Longrightarrow> list_all (behind n) (listeners c')"
    and "megaethMaxSubscriptions c' = megaethMaxSubscriptions c"
    and "requestId c \<le> requestId c'"
    and "within_limit c" and "handlers_behind c"
  shows "within_limit c' \<and> handlers_behind c'"
proof
  from assms(1,5) maxSubscriptions_cong [OF assms(3)] show "within_limit c'"
    by (simp add: within_limit_def)
  from assms(6) have "list_all (behind (requestId c')) (listeners c)"
    unfolding handlers_behind_def using assms(4) by (rule list_all_behind_mono)
  then show "handlers_behind c'"
    unfolding handlers_behind_def by (rule assms(2))
qed

lemma hands_out_le: "hands_out c c' \<Longrightarrow> requestId c \<le> requestId c'"
  by (simp add: hands_out_def)

lemma callRPC_keeps:
  assumes "within_limit c" and "handlers_behind c"
  shows "within_limit (snd (callRPC c method params out)) \<and>
         handlers_behind (snd (callRPC c method params out))"
proof (rule keeps_if [OF _ _ _ _ assms])
  show "requestId c \<le> requestId (snd (callRPC c method params out))"
    by (rule hands_out_le) (rule callRPC_hands_out)
qed (simp_all add: callRPC_def alloc_def listeners_def Let_def split: sum.splits)

lemma unsubscribe_keeps:
  assumes "within_limit c" and "handlers_behind c"
  shows "within_limit (snd (unsubscribe c h)) \<and> handlers_behind (snd (unsubscribe c h))"
proof (rule keeps_if [OF _ _ _ _ assms])
  show "requestId c \<le> requestId (snd (unsubscribe c h))"
    by (rule hands_out_le) (rule unsubscribe_hands_out)
  show "length (subscriptions (snd (unsubscribe c h))) \<le> length (subscriptions c)"
    by (simp add: unsubscribe_def alloc_def send_def Let_def length_delete_le
          split: option.splits)
  show "megaethMaxSubscriptions (snd (unsubscribe c h)) = megaethMaxSubscriptions c"
    by (simp add: unsubscribe_def alloc_def send_def Let_def split: option.splits)
  show "list_all (behind n) (listeners (snd (unsubscribe c h)))"
    if "list_all (behind n) (listeners c)" for n
    using that
    by (simp add: unsubscribe_def alloc_def send_def listeners_def Let_def split: option.splits)
qed

lemma setSubscriptionCallback_keeps:
  assumes "within_limit c" and "handlers_behind c"
  shows "within_limit (setSubscriptionCallback c h cb) \<and>
         handlers_behind (setSubscriptionCallback c h cb)"
proof (rule keeps_if [OF _ _ _ _ assms])
  show "length (subscriptions (setSubscriptionCallback c h cb)) \<le> length (subscriptions c)"
    by (simp add: setSubscriptionCallback_def length_update_known split: option.splits)
qed (simp_all add: setSubscriptionCallback_frame listeners_def)

lemma emit_message_no_id_keeps:
  assumes "m_id m = None" and "within_limit c" and "handlers_behind c"
  shows "within_limit (emit_message c m) \<and> handlers_behind (emit_message c m)"
proof (cases "wsManager c")
  case None
  with assms show ?thesis by (simp add: emit_message_def)
next
  case (Some ws)
  obtain ls' c' where e: "emit_listeners m (messageListeners ws) c = (ls', c')"
    by (cases "emit_listeners m (messageListeners ws) c")
  from emit_listeners_no_id [OF assms(1) e]
  have "ls' = messageListeners ws" and "subscriptions c' = subscriptions c" by simp_all
  with emit_message_known [OF Some e] Some
  have l: "listeners (emit_message c m) = listeners c"
    and t: "subscriptions (emit_message c m) = subscriptions c"
    by (simp_all add: listeners_def)
  show ?thesis
    by (rule keeps_if [OF _ _ _ _ assms(2,3)]) (simp_all add: l t emit_message_frame)
qed

lemma subscription_timeout_keeps:
  assumes "within_limit c" and "handlers_behind c"
  shows "within_limit (subscription_timeout c rid) \<and> handlers_behind (subscription_timeout c rid)"
  by (rule keeps_if [OF _ _ _ _ assms])
     (simp_all add: subscription_timeout_frame subscription_timeout_listeners)

lemma manager_piece_keeps:
  assumes "within_limit c" and "handlers_behind c"
    and "\<And>ws. messageListeners (f ws) = messageListeners ws"
  shows "within_limit (c\<lparr> wsManager := map_option f (wsManager c) \<rparr>) \<and>
         handlers_behind (c\<lparr> wsManager := map_option f (wsManager c) \<rparr>)"
proof (rule keeps_if [OF _ _ _ _ assms(1,2)])
  show "list_all (behind n) (listeners (c\<lparr> wsManager := map_option f (wsManager c) \<rparr>))"
    if "list_all (behind n) (listeners c)" for n
    using that by (cases "wsManager c") (simp_all add: listeners_def assms(3))
qed simp_all

lemma socket_close_keeps:
  assumes "within_limit c" and "handlers_behind c"
  shows "within_limit (socket_close c) \<and> handlers_behind (socket_close c)"
  unfolding socket_close_def using assms by (rule manager_piece_keeps) (rule socket_closes_frame)

lemma resubscribe_each_keeps:
  assumes "within_limit c" and "handlers_behind c"
    and "requestId (resubscribe_each c entries i env) < 2 ^ 53"
  shows "within_limit (resubscribe_each c entries i env) \<and>
         handlers_behind (resubscribe_each c entries i env)"
  using assms
proof (induction c entries i env rule: resubscribe_each.induct)
  case (1 c i env)
  then show ?case by simp
next
  case (2 c localId s rest i env)
  let ?c1 = "snd (subscribe c (s_eventType s) (s_params s) (env i))"
  have "requestId ?c1 \<le> requestId (resubscribe_each ?c1 rest (Suc i) env)"
    by (rule hands_out_le) (rule resubscribe_each_hands_out)
  with "2.prems"(3) have b: "requestId ?c1 < 2 ^ 53" by simp
  from subscribe_keeps [OF "2.prems"(1,2) b]
  have "within_limit ?c1" and "handlers_behind ?c1" by simp_all
  with "2.IH" "2.prems"(3) show ?case by simp
qed

lemma reconnect_timer_keeps:
  assumes w: "within_limit c" and b: "handlers_behind c"
    and r: "requestId (reconnect_timer c out env) < 2 ^ 53"
  shows "within_limit (reconnect_timer c out env) \<and> handlers_behind (reconnect_timer c out env)"
proof (cases "wsManager c")
  case None
  with assms show ?thesis by (simp add: reconnect_timer_def)
next
  case (Some ws)
  obtain res ws' where p: "connect_await ws out = (res, ws')" by (cases "connect_await ws out")
  with connect_await_listeners [of ws out]
  have l: "messageListeners ws' = messageListeners ws" by simp
  show ?thesis
  proof (cases res)
    case (Inl e)
    with Some p have e: "reconnect_timer c out env
        = c\<lparr> wsManager := Some (ws'\<lparr> emitted := emitted ws' @ [''reconnectFailed''] \<rparr>) \<rparr>"
      by (simp add: reconnect_timer_def)
    show ?thesis
      unfolding e
      by (rule keeps_if [OF _ _ _ _ w b]) (use Some l in \<open>simp_all add: listeners_def\<close>)
  next
    case (Inr u)
    let ?c1 = "c\<lparr> wsManager := Some (ws'\<lparr> emitted := emitted ws' @ [''reconnected''] \<rparr>),
                   subscriptions := [] \<rparr>"
    from Some p Inr have e: "reconnect_timer c out env
        = resubscribe_each ?c1 (subscriptions c) 0 env"
      by (simp add: reconnect_timer_def resubscribeAll_def Let_def)
    have "within_limit ?c1 \<and> handlers_behind ?c1"
      by (rule keeps_if [OF _ _ _ _ w b]) (use Some l in \<open>simp_all add: listeners_def\<close>)
    with r show ?thesis
      unfolding e by (intro resubscribe_each_keeps) simp_all
  qed
qed

lemma socket_attempt_keeps:
  assumes "within_limit c" and "handlers_behind c"
  shows "within_limit (socket_attempt c out) \<and> handlers_behind (socket_attempt c out)"
  unfolding socket_attempt_def using assms by (rule manager_piece_keeps) (rule socket_event_frame)

lemma earlier_socket_attempt_keeps:
  assumes "within_limit c" and "handlers_behind c"
  shows "within_limit (earlier_socket_attempt c k out) \<and>
         handlers_behind (earlier_socket_attempt c k out)"
  unfolding earlier_socket_attempt_def using assms
  by (rule manager_piece_keeps) (rule socket_event_frame)

lemma earlier_socket_close_keeps:
  assumes "within_limit c" and "handlers_behind c"
  shows "within_limit (earlier_socket_close c k) \<and> handlers_behind (earlier_socket_close c k)"
  unfolding earlier_socket_close_def using assms
  by (rule manager_piece_keeps) (rule socket_closes_frame)

lemma connect_call_keeps:
  assumes "within_limit c" and "handlers_behind c"
  shows "within_limit (connect_call c) \<and> handlers_behind (connect_call c)"
  unfolding connect_call_def using assms by (rule manager_piece_keeps) (rule connect_frame)

lemma step_keeps:
  assumes "sequential op" and "within_limit c" and "handlers_behind c"
    and "requestId (step c op) < 2 ^ 53"
  shows "within_limit (step c op) \<and> handlers_behind (step c op)"
proof (cases op)
  case (CallRPC name params out)
  with assms show ?thesis by (simp add: callRPC_keeps)
next
  case SubscribeBegin
  with assms show ?thesis by simp
next
  case (SocketAttempt out)
  with assms show ?thesis by (simp add: socket_attempt_keeps)
next
  case (SubscribeSend eventType params h)
  with assms show ?thesis by simp
next
  case (SubscribeRequest eventType params out h)
  with assms show ?thesis by simp
next
  case (SubscribeCall eventType params env)
  with assms show ?thesis by (simp add: subscribe_keeps)
next
  case (Unsubscribe h)
  with assms show ?thesis by (simp add: unsubscribe_keeps)
next
  case (SetSubscriptionCallback h cb)
  with assms show ?thesis by (simp add: setSubscriptionCallback_keeps)
next
  case (Message m)
  with assms show ?thesis by (simp add: emit_message_no_id_keeps)
next
  case (SubscriptionTimeout rid)
  with assms show ?thesis by (simp add: subscription_timeout_keeps)
next
  case SocketClose
  with assms show ?thesis by (simp add: socket_close_keeps)
next
  case Connect
  with assms show ?thesis by (simp add: connect_call_keeps)
next
  case (EarlierSocketAttempt k out)
  with assms show ?thesis by (simp add: earlier_socket_attempt_keeps)
next
  case (EarlierSocketClose k)
  with assms show ?thesis by (simp add: earlier_socket_close_keeps)
next
  case (ReconnectTimer out env)
  with assms show ?thesis by (simp add: reconnect_timer_keeps)
qed

lemma run_keeps:
  assumes "\<forall>op \<in> set ops. sequential op" and "within_limit c" and "handlers_behind c"
    and "requestId (run c ops) < 2 ^ 53"
  shows "within_limit (run c ops) \<and> handlers_behind (run c ops)"
  using assms
proof (induction ops arbitrary: c)
  case Nil
  then show ?case by (simp add: run_def)
next
  case (Cons op ops)
  have r: "run c (op # ops) = run (step c op) ops" by (simp add: run_def)
  have "requestId (step c op) \<le> requestId (run (step c op) ops)"
    by (rule hands_out_le) (rule run_hands_out)
  with Cons.prems(4) have b: "requestId (step c op) < 2 ^ 53" by (simp add: r)
  from Cons.prems(1) have "sequential op" by simp
  from step_keeps [OF this Cons.prems(2,3) b]
  have "within_limit (step c op)" and "handlers_behind (step c op)" by simp_all
  with Cons.IH [of "step c op"] Cons.prems(1,4) show ?case by (simp add: r)
qed

lemma subscribe_config:
  "megaethMaxSubscriptions (snd (subscribe c eventType params env)) = megaethMaxSubscriptions c"
proof (cases rule: subscribe_request_cases [of c eventType params "socket env" "handle env"])
  case (failed x c')
  then show ?thesis by (simp add: subscribe_def)
next
  case (sent c')
  then show ?thesis
    by (simp add: subscribe_def Let_def emit_message_frame subscription_timeout_frame
          split: reply.splits)
next
  case (thrown x c')
  then show ?thesis by (simp add: subscribe_def)
qed

lemma resubscribe_each_config:
  "megaethMaxSubscriptions (resubscribe_each c entries i env) = megaethMaxSubscriptions c"
  by (induction c entries i env rule: resubscribe_each.induct) (simp_all add: subscribe_config)

lemma step_config: "megaethMaxSubscriptions (step c op) = megaethMaxSubscriptions c"
proof (cases op)
  case (CallRPC name params out)
  then show ?thesis by (simp add: callRPC_def alloc_def Let_def split: sum.splits)
next
  case SubscribeBegin
  then show ?thesis by (simp add: subscribe_begin_def split: option.splits prod.splits)
next
  case (SocketAttempt out)
  then show ?thesis by (simp add: socket_attempt_def)
next
  case (SubscribeSend eventType params h)
  then show ?thesis
    by (simp add: subscribe_send_def alloc_def Let_def split: option.splits)
next
  case (SubscribeRequest eventType params out h)
  then show ?thesis
    by (cases rule: subscribe_request_cases [of c eventType params out h]) simp_all
next
  case (SubscribeCall eventType params env)
  then show ?thesis by (simp add: subscribe_config)
next
  case (Unsubscribe h)
  then show ?thesis
    by (simp add: unsubscribe_def alloc_def send_def Let_def split: option.splits)
next
  case (SetSubscriptionCallback h cb)
  then show ?thesis by (simp add: setSubscriptionCallback_frame)
next
  case (Message m)
  then show ?thesis by (simp add: emit_message_frame)
next
  case (SubscriptionTimeout rid)
  then show ?thesis by (simp add: subscription_timeout_frame)
next
  case SocketClose
  then show ?thesis by (simp add: socket_close_frame)
next
  case Connect
  then show ?thesis by (simp add: connect_call_def)
next
  case (EarlierSocketAttempt k out)
  then show ?thesis by (simp add: earlier_socket_attempt_def)
next
  case (EarlierSocketClose k)
  then show ?thesis by (simp add: earlier_socket_close_def)
next
  case (ReconnectTimer out env)
  then show ?thesis
    by (simp add: reconnect_timer_def resubscribeAll_def resubscribe_each_config Let_def
          split: option.splits prod.splits sum.splits)
qed

lemma run_config: "megaethMaxSubscriptions (run c ops) = megaethMaxSubscriptions c"
  unfolding run_def by (induction ops arbitrary: c) (simp_all add: step_config)

text \<open>
  With a manager configured and the table holding at least as many entries as the limit
  (the configured value, or 100 when none or 0 is configured), a subscribe call fails at
  once with the limit error and the client is as before: no socket is created and
  nothing is sent.
\<close>

lemma subscribe_at_limit:
  assumes "wsManager c \<noteq> None" and "maxSubscriptions c \<le> int (length (subscriptions c))"
  shows "subscribe_request c eventType params out h
           = (Inl (MegaETH (SubscriptionLimitError (maxSubscriptions c))), c)"
    and "subscribe c eventType params env
           = (Some (Inl (MegaETH (SubscriptionLimitError (maxSubscriptions c)))), c)"
proof -
  from assms show r: "subscribe_request c eventType params out h
        = (Inl (MegaETH (SubscriptionLimitError (maxSubscriptions c))), c)" for out h
    by (auto simp: subscribe_request_def)
  show "subscribe c eventType params env
        = (Some (Inl (MegaETH (SubscriptionLimitError (maxSubscriptions c)))), c)"
    by (simp add: subscribe_def r)
qed

text \<open>
  The test of the limit holds the table within the limit in the runs where no subscribe
  call overlaps with another piece and no response arrives outside of its call.
\<close>

lemma sequential_within_limit:
  assumes "\<forall>op \<in> set ops. sequential op"
    and "0 \<le> maxSubscriptions (new_client wsUrl maxSubs)"
    and "requestId (run (new_client wsUrl maxSubs) ops) < 2 ^ 53"
  shows "int (length (subscriptions (run (new_client wsUrl maxSubs) ops)))
           \<le> maxSubscriptions (new_client wsUrl maxSubs)"
proof -
  let ?c = "new_client wsUrl maxSubs"
  from assms(2) have w: "within_limit ?c" by (simp add: within_limit_def new_client_def)
  have b: "handlers_behind ?c"
    by (simp add: handlers_behind_def listeners_def new_client_def)
  from run_keeps [OF assms(1) w b assms(3)] have "within_limit (run ?c ops)" by simp
  moreover have "maxSubscriptions (run ?c ops) = maxSubscriptions ?c"
    by (rule maxSubscriptions_cong) (rule run_config)
  ultimately show ?thesis by (simp add: within_limit_def)
qed

text \<open>
  C5. The number of entries of the table exceeds the limit. A new client with a limit of
  one: a first subscribe call finds the table empty, connects and sends its request, the
  first id. While it waits for the response a second subscribe call finds the table
  empty as well, and sends the second id. Both responses arrive and both are stored: the
  table holds two entries at a limit of one. The test of the limit counts the entries
  stored and not the requests in flight; from then on it refuses a third call.
\<close>

theorem subscribe_exceeds_limit:
  "maxSubscriptions (new_client True (Some 1)) = 1 \<and>
   fst (subscribe_request (new_client True (Some 1)) ''newHeads'' (JObj []) Opens ''sub_a'')
     = Inr 1 \<and>
   fst (subscribe_request
          (run (new_client True (Some 1))
             [SubscribeRequest ''newHeads'' (JObj []) Opens ''sub_a''])
          ''logs'' (JObj []) Opens ''sub_b'') = Inr 2 \<and>
   map fst (subscriptions (run (new_client True (Some 1))
      [SubscribeRequest ''newHeads'' (JObj []) Opens ''sub_a'',
       SubscribeRequest ''logs'' (JObj []) Opens ''sub_b'',
       Message (reply_message 1 (Result (Some (JStr ''0xA'')))),
       Message (reply_message 2 (Result (Some (JStr ''0xB''))))])) = [''sub_a'', ''sub_b''] \<and>
   maxSubscriptions (run (new_client True (Some 1))
      [SubscribeRequest ''newHeads'' (JObj []) Opens ''sub_a'',
       SubscribeRequest ''logs'' (JObj []) Opens ''sub_b'',
       Message (reply_message 1 (Result (Some (JStr ''0xA'')))),
       Message (reply_message 2 (Result (Some (JStr ''0xB''))))]) = 1 \<and>
   fst (subscribe_request
          (run (new_client True (Some 1))
             [SubscribeRequest ''newHeads'' (JObj []) Opens ''sub_a'',
              SubscribeRequest ''logs'' (JObj []) Opens ''sub_b'',
              Message (reply_message 1 (Result (Some (JStr ''0xA'')))),
              Message (reply_message 2 (Result (Some (JStr ''0xB''))))])
          ''newHeads'' (JObj []) Opens ''sub_c'')
     = Inl (MegaETH (SubscriptionLimitError 1))"
  by (simp add: run_def client_defs Let_def)

section \<open>Timeouts and resubscription\<close>

lemma expire_last:
  assumes "list_all (behind rid) ls" and "h_id h = rid" and "\<not> h_settled h"
  shows "expire rid (ls @ [MessageHandler h]) = Some (ls @ [MessageHandler (h\<lparr> h_settled := True \<rparr>)])"
  using assms(1)
proof (induction ls)
  case Nil
  with assms(2,3) show ?case by simp
next
  case (Cons l ls)
  then show ?case by (cases l) simp_all
qed

text \<open>
  In general: a subscribe call that sends its request (with every handler registered
  before waiting for an earlier id) and gets no response is rejected with
  \<open>Subscription timeout\<close> and leaves the table as it was; the response that arrives
  afterwards stores the subscription under the handle of that call.
\<close>

lemma late_response_stored:
  assumes b: "handlers_behind c"
    and s: "subscribe_request c eventType params out h = (Inr rid, c1)"
  shows "fst (subscribe c eventType params \<lparr> socket = out, handle = h, server = NoReply \<rparr>)
           = Some (Inl (Error (plain ''Subscription timeout'')))"
    and "subscriptions (snd (subscribe c eventType params
           \<lparr> socket = out, handle = h, server = NoReply \<rparr>)) = subscriptions c"
    and "subscriptions (emit_message
           (snd (subscribe c eventType params \<lparr> socket = out, handle = h, server = NoReply \<rparr>))
           (reply_message rid (Result v)))
           = AList.update h \<lparr> s_id = v, s_eventType = eventType, s_params = params,
                               s_callback = NoOp \<rparr> (subscriptions c)"
proof -
  let ?h = "\<lparr> h_id = requestId c, h_subscriptionId = h, h_eventType = eventType,
              h_params = params, h_settled = False \<rparr>"
  let ?env = "\<lparr> socket = out, handle = h, server = NoReply \<rparr>"
  let ?m = "reply_message rid (Result v)"
  have rid: "rid = requestId c" and t: "subscriptions c1 = subscriptions c"
    and l: "listeners c1 = listeners c @ [MessageHandler ?h]"
    using s by (cases rule: subscribe_request_cases [of c eventType params out h]; simp)+
  from l obtain ws where ws: "wsManager c1 = Some ws"
    and ls: "messageListeners ws = listeners c @ [MessageHandler ?h]"
    by (cases "wsManager c1") (simp_all add: listeners_def)
  from b have old: "list_all (behind rid) (listeners c)"
    by (simp add: handlers_behind_def rid)
  have ex: "expire rid (messageListeners ws)
      = Some (listeners c @ [MessageHandler (?h\<lparr> h_settled := True \<rparr>)])"
    unfolding ls by (rule expire_last [OF old]) (simp_all add: rid)
  let ?ws2 = "ws\<lparr> messageListeners := listeners c @ [MessageHandler (?h\<lparr> h_settled := True \<rparr>)] \<rparr>"
  let ?c2 = "c1\<lparr> wsManager := Some ?ws2,
       settled := settled c1 @ [(rid, Inl (Error (plain ''Subscription timeout'')))] \<rparr>"
  have to: "subscription_timeout c1 rid = ?c2"
    by (simp add: subscription_timeout_def ws ex)
  have sub: "subscribe c eventType params ?env
      = (map_of (drop (length (settled c1)) (settled ?c2)) rid, ?c2)"
    using s to by (simp add: subscribe_def Let_def)
  show "fst (subscribe c eventType params ?env)
           = Some (Inl (Error (plain ''Subscription timeout'')))"
    by (simp add: sub)
  show "subscriptions (snd (subscribe c eventType params ?env)) = subscriptions c"
    by (simp add: sub t)
  have nc: "\<forall>g. MessageHandler g \<in> set (listeners c) \<longrightarrow> \<not> correlates ?m g"
  proof (intro allI impI)
    fix g assume "MessageHandler g \<in> set (listeners c)"
    with old have "behind rid (MessageHandler g)" by (auto simp: list_all_iff)
    then show "\<not> correlates ?m g" by (simp add: correlates_reply)
  qed
  have mm: "m_method ?m \<noteq> Some ''eth_subscription''" by (simp add: reply_message_def)
  have cor: "correlates ?m (?h\<lparr> h_settled := True \<rparr>)" by (simp add: correlates_reply rid)
  have w2: "wsManager ?c2 = Some ?ws2" by simp
  have "emit_listeners ?m (messageListeners ?ws2) ?c2
      = (listeners c, messageHandler (?h\<lparr> h_settled := True \<rparr>) ?m ?c2)"
    using emit_listeners_last [OF nc mm, of "?h\<lparr> h_settled := True \<rparr>" ?c2] cor by simp
  from emit_message_known(2) [OF w2 this]
  have "subscriptions (emit_message ?c2 ?m)
      = subscriptions (messageHandler (?h\<lparr> h_settled := True \<rparr>) ?m ?c2)" .
  then show "subscriptions (emit_message (snd (subscribe c eventType params ?env)) ?m)
           = AList.update h \<lparr> s_id = v, s_eventType = eventType, s_params = params,
                               s_callback = NoOp \<rparr> (subscriptions c)"
    by (simp add: sub messageHandler_def settle_def reply_message_def t)
qed

text \<open>
  C2. A subscribe call that gets no response before its timer fires is rejected with
  \<open>Subscription timeout\<close>, and the table is still empty then. The timer does not take
  the handler of the call off the listeners, as the handler itself does when a response
  comes: the response that arrives after the timeout is handled like one in time, and the
  subscription is stored in the table.
\<close>

theorem subscribe_late_response_stored:
  "fst (subscribe (new_client True (Some 1)) ''newHeads'' (JObj [])
          \<lparr> socket = Opens, handle = ''sub_a'', server = NoReply \<rparr>)
     = Some (Inl (Error (plain ''Subscription timeout''))) \<and>
   subscriptions (snd (subscribe (new_client True (Some 1)) ''newHeads'' (JObj [])
          \<lparr> socket = Opens, handle = ''sub_a'', server = NoReply \<rparr>)) = [] \<and>
   subscriptions (emit_message
       (snd (subscribe (new_client True (Some 1)) ''newHeads'' (JObj [])
          \<lparr> socket = Opens, handle = ''sub_a'', server = NoReply \<rparr>))
       (reply_message 1 (Result (Some (JStr ''0xA'')))))
     = [(''sub_a'', \<lparr> s_id = Some (JStr ''0xA''), s_eventType = ''newHeads'',
                       s_params = JObj [], s_callback = NoOp \<rparr>)]"
  by (simp add: client_defs Let_def)

lemma set_update_subset: "set (AList.update k v al) \<subseteq> insert (k, v) (set al)"
  by (induction al) auto

lemma messageHandler_callbacks:
  assumes "\<forall>e \<in> set (subscriptions c). s_callback (snd e) = NoOp"
  shows "\<forall>e \<in> set (subscriptions (messageHandler h m c)). s_callback (snd e) = NoOp"
proof (cases "m_error m")
  case None
  have "set (subscriptions (messageHandler h m c))
      \<subseteq> insert (h_subscriptionId h,
            \<lparr> s_id = m_result m, s_eventType = h_eventType h, s_params = h_params h,
              s_callback = NoOp \<rparr>) (set (subscriptions c))"
    using None set_update_subset by (simp add: messageHandler_def settle_def)
  with assms show ?thesis by auto
next
  case (Some e)
  with assms show ?thesis by (simp add: messageHandler_def settle_def)
qed

lemma emit_listeners_callbacks:
  "emit_listeners m ls c = (ls', c') \<Longrightarrow>
   \<forall>e \<in> set (subscriptions c). s_callback (snd e) = NoOp \<Longrightarrow>
   \<forall>e \<in> set (subscriptions c'). s_callback (snd e) = NoOp"
proof (induction m ls c arbitrary: ls' c' rule: emit_listeners.induct)
  case (1 m c)
  then show ?case by simp
next
  case (2 m rest c)
  show ?case
  proof (cases "handleWebSocketMessage c m")
    case None
    with 2(2,3) show ?thesis by simp
  next
    case (Some c1)
    obtain r c2 where e: "emit_listeners m rest c1 = (r, c2)" by (cases "emit_listeners m rest c1")
    from 2(2) Some e have "c' = c2" by simp
    moreover from 2(3) handleWebSocketMessage_frame(5) [OF Some]
    have "\<forall>e \<in> set (subscriptions c1). s_callback (snd e) = NoOp" by simp
    ultimately show ?thesis using 2(1) [OF Some e] by simp
  qed
next
  case (3 m h c)
  show ?case
  proof (cases "correlates m h")
    case True
    with 3(1) have "c' = messageHandler h m c" by simp
    with messageHandler_callbacks [OF 3(2)] show ?thesis by simp
  next
    case False
    with 3 show ?thesis by simp
  qed
next
  case (4 m h l rest c)
  show ?case
  proof (cases "correlates m h")
    case True
    obtain r c2 where e: "emit_listeners m rest (messageHandler h m c) = (r, c2)"
      by (cases "emit_listeners m rest (messageHandler h m c)")
    from 4(3) True e have "c' = c2" by simp
    with 4(1) [OF True e] messageHandler_callbacks [OF 4(4)] show ?thesis by simp
  next
    case False
    obtain r c2 where e: "emit_listeners m (l # rest) c = (r, c2)"
      by (cases "emit_listeners m (l # rest) c")
    from 4(3) False e have "c' = c2" by simp
    with 4(2) [OF False e] 4(4) show ?thesis by simp
  qed
qed

lemma emit_message_callbacks:
  assumes "\<forall>e \<in> set (subscriptions c). s_callback (snd e) = NoOp"
  shows "\<forall>e \<in> set (subscriptions (emit_message c m)). s_callback (snd e) = NoOp"
proof (cases "wsManager c")
  case None
  with assms show ?thesis by (simp add: emit_message_def)
next
  case (Some ws)
  obtain ls' c' where e: "emit_listeners m (messageListeners ws) c = (ls', c')"
    by (cases "emit_listeners m (messageListeners ws) c")
  from emit_listeners_callbacks [OF e assms] emit_message_known(2) [OF Some e]
  show ?thesis by simp
qed

lemma subscribe_callbacks:
  assumes "\<forall>e \<in> set (subscriptions c). s_callback (snd e) = NoOp"
  shows "\<forall>e \<in> set (subscriptions (snd (subscribe c eventType params env))).
           s_callback (snd e) = NoOp"
proof (cases rule: subscribe_request_cases [of c eventType params "socket env" "handle env"])
  case (failed x c')
  with assms show ?thesis by (simp add: subscribe_def)
next
  case (thrown x c')
  with assms show ?thesis by (simp add: subscribe_def)
next
  case (sent c')
  with assms have "\<forall>e \<in> set (subscriptions c'). s_callback (snd e) = NoOp" by simp
  with sent(1) show ?thesis
    by (simp add: subscribe_def Let_def emit_message_callbacks subscription_timeout_frame
          split: reply.splits)
qed

text \<open>After \<open>resubscribeAll\<close> every entry of the table has the empty callback, whatever
  the callbacks were before.\<close>

lemma resubscribe_each_callbacks:
  "\<forall>e \<in> set (subscriptions c). s_callback (snd e) = NoOp \<Longrightarrow>
   \<forall>e \<in> set (subscriptions (resubscribe_each c entries i env)). s_callback (snd e) = NoOp"
proof (induction c entries i env rule: resubscribe_each.induct)
  case (1 c i env)
  then show ?case by simp
next
  case (2 c localId s rest i env)
  from subscribe_callbacks [OF "2.prems"] "2.IH" show ?case by simp
qed

lemma resubscribeAll_callbacks:
  "\<forall>e \<in> set (subscriptions (resubscribeAll c env)). s_callback (snd e) = NoOp"
proof -
  have "\<forall>e \<in> set (subscriptions (c\<lparr> subscriptions := [] \<rparr>)). s_callback (snd e) = NoOp"
    by simp
  then show ?thesis
    unfolding resubscribeAll_def Let_def by (rule resubscribe_each_callbacks)
qed

lemma callback_set:
  "setSubscriptionCallback
     (snd (subscribe (new_client True (Some 1)) ''newHeads'' (JObj [])
             \<lparr> socket = Opens, handle = ''sub_a'', server = Result (Some (JStr ''0xA'')) \<rparr>))
     ''sub_a'' (Callback 7)
   = \<lparr> wsManager = Some \<lparr> connection = Some OPEN, earlier = [], reconnectAttempts = 0,
            maxReconnectAttempts = 5, reconnectDelay = 1000, heartbeatInterval = True,
            isConnecting = False, messageListeners = [ClientListener], socketsOpened = 1,
            sent = [\<lparr> p_id = 1, p_method = ''eth_subscribe'',
                      p_params = [JStr ''newHeads'', JObj []] \<rparr>],
            timers = [], emitted = [] \<rparr>,
        subscriptions = [(''sub_a'', \<lparr> s_id = Some (JStr ''0xA''), s_eventType = ''newHeads'',
                           s_params = JObj [], s_callback = Callback 7 \<rparr>)],
        requestId = 2, megaethMaxSubscriptions = Some 1, issued = [1], httpPosts = [],
        settled = [(1, Inr ''sub_a'')], delivered = [] \<rparr>"
  by (simp add: subscribed_once setSubscriptionCallback_def)

lemma resubscribed:
  "reconnect_timer (socket_close
     (setSubscriptionCallback
       (snd (subscribe (new_client True (Some 1)) ''newHeads'' (JObj [])
               \<lparr> socket = Opens, handle = ''sub_a'', server = Result (Some (JStr ''0xA'')) \<rparr>))
       ''sub_a'' (Callback 7)))
     Opens (\<lambda>i. \<lparr> socket = Opens, handle = ''sub_b'', server = Result (Some (JStr ''0xB'')) \<rparr>)
   = \<lparr> wsManager = Some \<lparr> connection = Some OPEN, earlier = [CLOSED], reconnectAttempts = 0,
            maxReconnectAttempts = 5, reconnectDelay = 1000, heartbeatInterval = True,
            isConnecting = False, messageListeners = [ClientListener], socketsOpened = 2,
            sent = [\<lparr> p_id = 1, p_method = ''eth_subscribe'',
                      p_params = [JStr ''newHeads'', JObj []] \<rparr>,
                    \<lparr> p_id = 2, p_method = ''eth_subscribe'',
                      p_params = [JStr ''newHeads'', JObj []] \<rparr>],
            timers = [1000], emitted = [''reconnected''] \<rparr>,
        subscriptions = [(''sub_b'', \<lparr> s_id = Some (JStr ''0xB''), s_eventType = ''newHeads'',
                           s_params = JObj [], s_callback = NoOp \<rparr>)],
        requestId = 3, megaethMaxSubscriptions = Some 1, issued = [1, 2], httpPosts = [],
        settled = [(1, Inr ''sub_a''), (2, Inr ''sub_b'')], delivered = [] \<rparr>"
  by (simp only: callback_set)
     (simp add: socket_close_def socket_defs handleReconnection_cases
        reconnect_timer_def resubscribeAll_def client_defs Let_def)

text \<open>
  C1. One subscription with the callback of a caller attached: a notification for its
  server id reaches that callback. After a close and a reconnect, \<open>resubscribeAll\<close> has
  sent \<open>eth_subscribe\<close> again with the event type and the parameters of the entry, and
  the table holds one entry, under the new local handle, with the new server id and with
  the empty callback that \<open>subscribe\<close> installs. A notification for the new server id
  reaches no callback of the caller.
\<close>

theorem resubscribeAll_drops_callback:
  "delivered (emit_message
     (setSubscriptionCallback
       (snd (subscribe (new_client True (Some 1)) ''newHeads'' (JObj [])
               \<lparr> socket = Opens, handle = ''sub_a'', server = Result (Some (JStr ''0xA'')) \<rparr>))
       ''sub_a'' (Callback 7))
     \<lparr> m_id = None, m_method = Some ''eth_subscription'',
       m_params = Some \<lparr> n_subscription = Some (JStr ''0xA''), n_result = Some (JNum 42) \<rparr>,
       m_result = None, m_error = None \<rparr>) = [(7, Some (JNum 42))] \<and>
   subscriptions (reconnect_timer (socket_close
     (setSubscriptionCallback
       (snd (subscribe (new_client True (Some 1)) ''newHeads'' (JObj [])
               \<lparr> socket = Opens, handle = ''sub_a'', server = Result (Some (JStr ''0xA'')) \<rparr>))
       ''sub_a'' (Callback 7)))
     Opens (\<lambda>i. \<lparr> socket = Opens, handle = ''sub_b'', server = Result (Some (JStr ''0xB'')) \<rparr>))
     = [(''sub_b'', \<lparr> s_id = Some (JStr ''0xB''), s_eventType = ''newHeads'',
                       s_params = JObj [], s_callback = NoOp \<rparr>)] \<and>
   map_option sent (wsManager (reconnect_timer (socket_close
     (setSubscriptionCallback
       (snd (subscribe (new_client True (Some 1)) ''newHeads'' (JObj [])
               \<lparr> socket = Opens, handle = ''sub_a'', server = Result (Some (JStr ''0xA'')) \<rparr>))
       ''sub_a'' (Callback 7)))
     Opens (\<lambda>i. \<lparr> socket = Opens, handle = ''sub_b'', server = Result (Some (JStr ''0xB'')) \<rparr>)))
     = Some [\<lparr> p_id = 1, p_method = ''eth_subscribe'', p_params = [JStr ''newHeads'', JObj []] \<rparr>,
             \<lparr> p_id = 2, p_method = ''eth_subscribe'', p_params = [JStr ''newHeads'', JObj []] \<rparr>] \<and>
   delivered (emit_message
     (reconnect_timer (socket_close
       (setSubscriptionCallback
         (snd (subscribe (new_client True (Some 1)) ''newHeads'' (JObj [])
                 \<lparr> socket = Opens, handle = ''sub_a'', server = Result (Some (JStr ''0xA'')) \<rparr>))
         ''sub_a'' (Callback 7)))
       Opens (\<lambda>i. \<lparr> socket = Opens, handle = ''sub_b'', server = Result (Some (JStr ''0xB'')) \<rparr>))
     \<lparr> m_id = None, m_method = Some ''eth_subscription'',
       m_params = Some \<lparr> n_subscription = Some (JStr ''0xB''), n_result = Some (JNum 42) \<rparr>,
       m_result = None, m_error = None \<rparr>) = []"
  by (simp only: resubscribed)
     (simp add: callback_set emit_message_def handleWebSocketMessage_def invoke_def)

section \<open>The flag of the attempt in runs\<close>

lemma attempt_in_flight_fields:
  assumes "attempt_in_flight ws"
    and "connection ws' = connection ws" and "isConnecting ws' = isConnecting ws"
  shows "attempt_in_flight ws'"
  using assms by (simp add: attempt_in_flight_def)

lemma connect_await_flag:
  assumes "attempt_in_flight ws"
  shows "attempt_in_flight (snd (connect_await ws out))"
proof -
  obtain st ws' where c: "connect ws = (st, ws')" by (cases "connect ws")
  with attempt_in_flight_connect [OF assms] have b: "attempt_in_flight ws'" by simp
  from attempt_in_flight_event(1) [OF b]
  have e: "attempt_in_flight (socket_event Current o' ws')" for o' .
  from b c show ?thesis
    by (simp add: connect_await_def e
          split: connect_status.splits socket_outcome.splits poll.splits)
qed

lemma manager_piece_flag:
  assumes "flag_sound c" and "\<And>ws. attempt_in_flight ws \<Longrightarrow> attempt_in_flight (f ws)"
  shows "flag_sound (c\<lparr> wsManager := map_option f (wsManager c) \<rparr>)"
  using assms by (cases "wsManager c") (simp_all add: flag_sound_def)

lemma flag_sound_same: "wsManager c' = wsManager c \<Longrightarrow> flag_sound c \<Longrightarrow> flag_sound c'"
  by (simp add: flag_sound_def)

lemma callRPC_flag: "flag_sound c \<Longrightarrow> flag_sound (snd (callRPC c name params out))"
  by (rule flag_sound_same) (simp_all add: callRPC_def alloc_def Let_def split: sum.splits)

lemma subscribe_begin_flag: "flag_sound c \<Longrightarrow> flag_sound (snd (subscribe_begin c))"
  using attempt_in_flight_connect
  by (fastforce simp: flag_sound_def subscribe_begin_def split: option.splits prod.splits)

lemma subscribe_send_flag:
  "flag_sound c \<Longrightarrow> flag_sound (snd (subscribe_send c eventType params h))"
  by (auto simp: flag_sound_def subscribe_send_def alloc_def send_def Let_def
        attempt_in_flight_def is_open_def split: option.splits if_splits)

lemma connectWebSocket_flag: "flag_sound c \<Longrightarrow> flag_sound (snd (connectWebSocket c out))"
proof (cases "wsManager c")
  case None
  then show "flag_sound c \<Longrightarrow> ?thesis" by (simp add: connectWebSocket_def)
next
  case (Some ws)
  assume "flag_sound c"
  with Some have "attempt_in_flight ws" by (simp add: flag_sound_def)
  from connect_await_flag [OF this, of out] Some show ?thesis
    by (cases "connect_await ws out")
       (simp add: connectWebSocket_def flag_sound_def split: sum.splits)
qed

lemma subscribe_request_flag:
  assumes "flag_sound c"
  shows "flag_sound (snd (subscribe_request c eventType params out h))"
proof (cases "connectWebSocket c out")
  case (Pair r c1)
  with connectWebSocket_flag [OF assms, of out] have f: "flag_sound c1" by simp
  from subscribe_send_flag [OF f] have "flag_sound (snd (subscribe_send c1 eventType params h))" .
  with Pair f assms show ?thesis
    by (simp add: subscribe_request_def split: option.splits sum.splits)
qed

lemma emit_message_flag: "flag_sound c \<Longrightarrow> flag_sound (emit_message c m)"
proof (cases "wsManager c")
  case None
  then show "flag_sound c \<Longrightarrow> ?thesis" by (simp add: emit_message_def)
next
  case (Some ws)
  assume a: "flag_sound c"
  obtain ls' c' where e: "emit_listeners m (messageListeners ws) c = (ls', c')"
    by (cases "emit_listeners m (messageListeners ws) c")
  from a Some e show ?thesis
    by (simp add: emit_message_def flag_sound_def attempt_in_flight_def)
qed

lemma subscription_timeout_flag: "flag_sound c \<Longrightarrow> flag_sound (subscription_timeout c rid)"
  by (auto simp: flag_sound_def subscription_timeout_def attempt_in_flight_def
        split: option.splits)

lemma subscribe_flag:
  assumes "flag_sound c"
  shows "flag_sound (snd (subscribe c eventType params env))"
proof (cases "subscribe_request c eventType params (socket env) (handle env)")
  case (Pair r c1)
  with subscribe_request_flag [OF assms, of eventType params "socket env" "handle env"]
  have f: "flag_sound c1" by simp
  with Pair show ?thesis
    by (simp add: subscribe_def Let_def emit_message_flag subscription_timeout_flag
          split: sum.splits reply.splits)
qed

lemma unsubscribe_flag: "flag_sound c \<Longrightarrow> flag_sound (snd (unsubscribe c h))"
  by (auto simp: flag_sound_def unsubscribe_def alloc_def send_def Let_def
        attempt_in_flight_def is_open_def split: option.splits if_splits)

lemma setSubscriptionCallback_flag:
  "flag_sound c \<Longrightarrow> flag_sound (setSubscriptionCallback c h cb)"
  by (rule flag_sound_same) (simp_all add: setSubscriptionCallback_frame)

lemma resubscribe_each_flag:
  "flag_sound c \<Longrightarrow> flag_sound (resubscribe_each c entries i env)"
  by (induction c entries i env rule: resubscribe_each.induct) (simp_all add: subscribe_flag)

lemma reconnect_timer_flag:
  assumes "flag_sound c"
  shows "flag_sound (reconnect_timer c out env)"
proof (cases "wsManager c")
  case None
  with assms show ?thesis by (simp add: reconnect_timer_def)
next
  case (Some ws)
  with assms have "attempt_in_flight ws" by (simp add: flag_sound_def)
  from connect_await_flag [OF this, of out] obtain r ws'
    where p: "connect_await ws out = (r, ws')" and f: "attempt_in_flight ws'"
    by (cases "connect_await ws out") simp
  from f have g: "attempt_in_flight (ws'\<lparr> emitted := t \<rparr>)" for t
    by (simp add: attempt_in_flight_def)
  show ?thesis
  proof (cases r)
    case (Inl e)
    with Some p g show ?thesis by (simp add: reconnect_timer_def flag_sound_def)
  next
    case (Inr u)
    have "flag_sound (resubscribe_each
        (c\<lparr> wsManager := Some (ws'\<lparr> emitted := emitted ws' @ [''reconnected''] \<rparr>),
            subscriptions := [] \<rparr>) (subscriptions c) 0 env)"
      by (rule resubscribe_each_flag) (simp add: flag_sound_def g)
    with Some p Inr show ?thesis
      by (simp add: reconnect_timer_def resubscribeAll_def Let_def)
  qed
qed

lemma step_flag: "flag_sound c \<Longrightarrow> flag_sound (step c op)"
  by (cases op)
     (simp_all add: callRPC_flag subscribe_begin_flag subscribe_send_flag subscribe_request_flag
        subscribe_flag unsubscribe_flag setSubscriptionCallback_flag emit_message_flag
        subscription_timeout_flag reconnect_timer_flag manager_piece_defs manager_piece_flag
        attempt_in_flight_event attempt_in_flight_connect)

lemma run_flag: "flag_sound c \<Longrightarrow> flag_sound (run c ops)"
  unfolding run_def by (induction ops arbitrary: c) (simp_all add: step_flag)

text \<open>
  In every run of a new client the flag \<open>isConnecting\<close> is up only while the socket that
  \<open>this.connection\<close> names is connecting. So the poll of a caller that has joined an
  attempt, when it is the next code to run after the end of that attempt, settles the
  caller: \<open>connect_await\<close> has nothing left to wait for.
\<close>

lemma joined_caller_settles:
  assumes "wsManager (run (new_client wsUrl maxSubs) ops) = Some ws"
    and "connect ws = (Waiting, ws')"
  shows "checkConnection (socket_event Current out ws') \<noteq> PollAgain"
proof -
  have "flag_sound (new_client wsUrl maxSubs)"
    by (simp add: flag_sound_def new_client_def new_ws_manager_def attempt_in_flight_def)
  then have "flag_sound (run (new_client wsUrl maxSubs) ops)" by (rule run_flag)
  with assms(1) have a: "attempt_in_flight ws" by (simp add: flag_sound_def)
  from assms(2) have "ws' = ws" and "isConnecting ws"
    by (simp_all add: connect_def split: if_splits)
  with a show ?thesis by (simp add: joined_poll_settles)
qed

end
